theory Spec2Isabelle
  imports Main "HOL-Library.AList"
begin

section \<open>Python values used by upnpport\<close>

text \<open>
  The exceptions that the functions of \<^verbatim>\<open>upnpport/__main__.py\<close> raise or let through.
  \<open>RuntimeError\<close> carries its message; \<open>KeyError\<close> carries the missing key.
\<close>

datatype exn =
    RuntimeError string
  | FileNotFoundError
  | OSError
  | KeyboardInterrupt
  | UnicodeDecodeError
  | ValueError
  | IndexError
  | KeyError string
  | TypeError
  | YAMLError

text \<open>
  Text is a list of 8-bit characters, read as the code points U+0000 to U+00FF.
  \<open>is_space\<close> is the class \<^verbatim>\<open>\s\<close> of \<^verbatim>\<open>re\<close> on that range (the characters for which
  \<^verbatim>\<open>str.isspace\<close> holds), \<open>is_digit\<close> the class \<^verbatim>\<open>\d\<close>.
\<close>

definition is_space :: "char \<Rightarrow> bool" where
  "is_space c =
     (let n = (of_char c :: nat)
      in (9 \<le> n \<and> n \<le> 13) \<or> (28 \<le> n \<and> n \<le> 32) \<or> n = 133 \<or> n = 160)"

definition is_digit :: "char \<Rightarrow> bool" where
  "is_digit c = (let n = (of_char c :: nat) in 48 \<le> n \<and> n \<le> 57)"

text \<open>\<^verbatim>\<open>str.lower\<close> on the same range: A to Z, and the capital letters of Latin-1.\<close>

definition lower_char :: "char \<Rightarrow> char" where
  "lower_char c =
     (let n = (of_char c :: nat)
      in if (65 \<le> n \<and> n \<le> 90) \<or> (192 \<le> n \<and> n \<le> 222 \<and> n \<noteq> 215)
         then char_of (n + 32) else c)"

definition lower :: "string \<Rightarrow> string" where
  "lower s = map lower_char s"

text \<open>\<^verbatim>\<open>str(n)\<close> for an integer: decimal digits, a minus sign for a negative number.\<close>

definition digit_char :: "nat \<Rightarrow> char" where
  "digit_char d = ''0123456789'' ! d"

fun str_nat :: "nat \<Rightarrow> string" where
  "str_nat n =
     (if n < 10 then [digit_char n]
      else str_nat (n div 10) @ [digit_char (n mod 10)])"

declare str_nat.simps [simp del]

definition str :: "int \<Rightarrow> string" where
  "str i = (if i < 0 then CHR ''-'' # str_nat (nat (- i)) else str_nat (nat i))"

text \<open>
  \<^verbatim>\<open>int(s)\<close> for a string without white space: an optional sign, then decimal digits,
  single underscores allowed between two digits; anything else raises \<open>ValueError\<close>.
  The tokens it is applied to below never hold white space (\<open>re_split_no_space\<close>), so
  the stripping that \<^verbatim>\<open>int\<close> does first has nothing to strip. The number of digits
  is not bounded, as in Python before 3.11.
\<close>

fun digits_ok :: "string \<Rightarrow> bool" where
  "digits_ok [] = False"
| "digits_ok [c] = is_digit c"
| "digits_ok (c # d # cs) =
     (is_digit c \<and> (if d = CHR ''_'' then digits_ok cs else digits_ok (d # cs)))"

definition digit_val :: "char \<Rightarrow> nat" where
  "digit_val c = of_char c - 48"

definition decimal :: "string \<Rightarrow> nat" where
  "decimal s = foldl (\<lambda>a c. 10 * a + digit_val c) 0 (filter is_digit s)"

definition py_int :: "string \<Rightarrow> exn + int" where
  "py_int s =
     (case s of
        [] \<Rightarrow> Inl ValueError
      | c # cs \<Rightarrow>
          if c = CHR ''-'' then (if digits_ok cs then Inr (- int (decimal cs)) else Inl ValueError)
          else if c = CHR ''+'' then (if digits_ok cs then Inr (int (decimal cs)) else Inl ValueError)
          else if digits_ok s then Inr (int (decimal s)) else Inl ValueError)"

text \<open>\<^verbatim>\<open>output.split('\n')\<close>: the pieces between line feeds, empty pieces kept.\<close>

fun split_on :: "char \<Rightarrow> string \<Rightarrow> string \<Rightarrow> string list" where
  "split_on sep cur [] = [rev cur]"
| "split_on sep cur (c # cs) =
     (if c = sep then rev cur # split_on sep [] cs else split_on sep (c # cur) cs)"

definition split_lines :: "string \<Rightarrow> string list" where
  "split_lines s = split_on (CHR 0x0A) [] s"

text \<open>
  \<^verbatim>\<open>re.split(r'\s+|->|:', s)\<close>: scanning from the left, a maximal run of white space,
  the two characters \<^verbatim>\<open>->\<close>, or a colon ends the current piece; empty pieces are kept.
\<close>

function re_split :: "string \<Rightarrow> string \<Rightarrow> string list" where
  "re_split cur [] = [rev cur]"
| "re_split cur (c # cs) =
     (if is_space c then rev cur # re_split [] (dropWhile is_space cs)
      else if c = CHR ''-'' \<and> take 1 cs = ''>'' then rev cur # re_split [] (drop 1 cs)
      else if c = CHR '':'' then rev cur # re_split [] cs
      else re_split (c # cur) cs)"
  by pat_completeness auto
termination
  by (relation "measure (\<lambda>(cur, s). length s)")
    (auto simp: le_imp_less_Suc length_dropWhile_le)

text \<open>
  \<^verbatim>\<open>re.match(r'.*\d->', line)\<close>: the match starts at the beginning of the line and
  \<^verbatim>\<open>.\<close> does not match a line feed, so the line matches when a digit directly followed
  by \<^verbatim>\<open>->\<close> occurs before its first line feed.
\<close>

fun digit_arrow :: "string \<Rightarrow> bool" where
  "digit_arrow (c # d # e # cs) =
     ((is_digit c \<and> d = CHR ''-'' \<and> e = CHR ''>'') \<or> digit_arrow (d # e # cs))"
| "digit_arrow _ = False"

definition re_match_digit_arrow :: "string \<Rightarrow> bool" where
  "re_match_digit_arrow line = digit_arrow (takeWhile (\<lambda>c. c \<noteq> CHR 0x0A) line)"

section \<open>Rules\<close>

text \<open>
  A rule is the dictionary that \<^verbatim>\<open>Config.__iter__\<close> and \<^verbatim>\<open>get_existing_rules\<close> build:
  keys \<^verbatim>\<open>port\<close> and \<^verbatim>\<open>protocol\<close>, and \<^verbatim>\<open>external_port\<close> when present. Equality of
  two such dictionaries is equality of the records.
\<close>

record rule =
  port :: int
  protocol :: string
  external_port :: "int option"

definition keep_lines :: "string list \<Rightarrow> (string \<Rightarrow> bool) \<Rightarrow> string list" where
  "keep_lines lines regex = filter regex lines"

text \<open>The body of the loop of \<^verbatim>\<open>get_existing_rules\<close>, for one kept line.\<close>

definition drop_leading_empty :: "string list \<Rightarrow> string list" where
  "drop_leading_empty ts = (case ts of [] \<Rightarrow> [] | t # rest \<Rightarrow> if t = [] then rest else ts)"

definition parse_rule_str :: "string \<Rightarrow> exn + rule" where
  "parse_rule_str rule_str =
     (let rule_str_split = drop_leading_empty (re_split [] rule_str)
      in if length rule_str_split \<le> 4 then Inl IndexError
         else case py_int (rule_str_split ! 4) of
                Inl e \<Rightarrow> Inl e
              | Inr p \<Rightarrow>
                  (case py_int (rule_str_split ! 2) of
                     Inl e \<Rightarrow> Inl e
                   | Inr x \<Rightarrow>
                       Inr \<lparr>port = p, protocol = lower (rule_str_split ! 1),
                            external_port = (if x \<noteq> p then Some x else None)\<rparr>))"

fun parse_rule_strs :: "string list \<Rightarrow> exn + rule list" where
  "parse_rule_strs [] = Inr []"
| "parse_rule_strs (l # ls) =
     (case parse_rule_str l of
        Inl e \<Rightarrow> Inl e
      | Inr r \<Rightarrow> (case parse_rule_strs ls of Inl e \<Rightarrow> Inl e | Inr rs \<Rightarrow> Inr (r # rs)))"

section \<open>The external tool\<close>

text \<open>
  \<^verbatim>\<open>call\<close> starts \<^verbatim>\<open>upnpc\<close> and reads its standard output. What the tool does is not
  part of the program: it is a parameter, a function from the invocations made so far and
  the command line to a response. The response is an exception of \<^verbatim>\<open>subprocess.Popen\<close>
  or of the read (\<open>FileNotFoundError\<close> when the executable is not found), or the bytes
  written. The bytes are given by the text they encode in UTF-8 when they encode one.
\<close>

datatype bytes = Utf8 string | NotUtf8

datatype response = Raises exn | Returns bytes

type_synonym command = "string list"

type_synonym tool = "command list \<Rightarrow> command \<Rightarrow> response"

text \<open>The effects of the program: the command lines it started, the lines it printed.\<close>

record world =
  invocations :: "command list"
  printed :: "string list"

definition print :: "string \<Rightarrow> world \<Rightarrow> world" where
  "print line w = w\<lparr>printed := printed w @ [line]\<rparr>"

definition decode :: "bytes \<Rightarrow> exn + string" where
  "decode b = (case b of Utf8 s \<Rightarrow> Inr s | NotUtf8 \<Rightarrow> Inl UnicodeDecodeError)"

definition call :: "tool \<Rightarrow> command \<Rightarrow> world \<Rightarrow> (exn + bytes) \<times> world" where
  "call t args w =
     (let w' = w\<lparr>invocations := invocations w @ [args]\<rparr>
      in case t (invocations w) args of
           Raises e \<Rightarrow>
             (if e = FileNotFoundError
              then (Inl (RuntimeError ''Could not find upnpc executable, is miniupnpc installed?''), w')
              else (Inl e, w'))
         | Returns out \<Rightarrow> (Inr out, w'))"

definition list_command :: command where
  "list_command = [''upnpc'', ''-l'']"

definition get_existing_rules :: "tool \<Rightarrow> world \<Rightarrow> (exn + rule list) \<times> world" where
  "get_existing_rules t w =
     (case call t list_command w of
        (Inl e, w') \<Rightarrow> (Inl e, w')
      | (Inr out, w') \<Rightarrow>
          (case decode out of
             Inl e \<Rightarrow> (Inl e, w')
           | Inr text \<Rightarrow>
               (parse_rule_strs (keep_lines (split_lines text) re_match_digit_arrow), w')))"

section \<open>The desired rules\<close>

text \<open>
  \<^verbatim>\<open>Config._rules\<close> is a dictionary from \<^verbatim>\<open>(port, protocol)\<close> to
  \<^verbatim>\<open>{'external_port': e}\<close>. A dictionary keeps its keys in insertion order and a
  stored key keeps its place when its value is replaced: an association list under
  \<open>AList.update\<close>.
\<close>

type_synonym config = "((int \<times> string) \<times> int) list"

text \<open>\<^verbatim>\<open>external_port or port\<close>: \<^verbatim>\<open>None\<close> and \<^verbatim>\<open>0\<close> are false.\<close>

definition add :: "int \<Rightarrow> int option \<Rightarrow> string \<Rightarrow> config \<Rightarrow> config" where
  "add p external pr rules =
     AList.update (p, pr)
       (case external of None \<Rightarrow> p | Some e \<Rightarrow> if e = 0 then p else e) rules"

text \<open>\<^verbatim>\<open>Config.__iter__\<close>: the rules that iterating the configuration yields.\<close>

definition iter :: "config \<Rightarrow> rule list" where
  "iter rules =
     map (\<lambda>((p, pr), e).
            \<lparr>port = p, protocol = pr,
             external_port = (if p \<noteq> e then Some e else None)\<rparr>) rules"

section \<open>Opening the ports\<close>

text \<open>\<^verbatim>\<open>rule.get('external_port', rule['port'])\<close>\<close>

definition get_external_port :: "rule \<Rightarrow> int" where
  "get_external_port r = (case external_port r of Some e \<Rightarrow> e | None \<Rightarrow> port r)"

definition format :: "rule \<Rightarrow> string" where
  "format r = str (port r) @ ''->'' @ str (get_external_port r) @ '' '' @ protocol r"

definition redirect_command :: "rule \<Rightarrow> command" where
  "redirect_command r =
     [''upnpc'', ''-r'', str (port r)]
       @ (case external_port r of Some e \<Rightarrow> [str e] | None \<Rightarrow> [])
       @ [protocol r]"

text \<open>The body of the loop of \<^verbatim>\<open>open_ports\<close>, for one desired rule.\<close>

definition open_port :: "tool \<Rightarrow> rule list \<Rightarrow> rule \<Rightarrow> world \<Rightarrow> (exn + unit) \<times> world" where
  "open_port t existing_rules r w =
     (if r \<in> set existing_rules
      then (Inr (), print (''skipping rule '' @ format r) w)
      else case call t (redirect_command r) (print (''enforcing rule '' @ format r) w) of
             (Inl e, w') \<Rightarrow> (Inl e, w')
           | (Inr out, w') \<Rightarrow> (Inr (), w'))"

fun for_rules :: "tool \<Rightarrow> rule list \<Rightarrow> rule list \<Rightarrow> world \<Rightarrow> (exn + unit) \<times> world" where
  "for_rules t existing_rules [] w = (Inr (), w)"
| "for_rules t existing_rules (r # rs) w =
     (case open_port t existing_rules r w of
        (Inl e, w') \<Rightarrow> (Inl e, w')
      | (Inr u, w') \<Rightarrow> for_rules t existing_rules rs w')"

definition open_ports :: "tool \<Rightarrow> config \<Rightarrow> world \<Rightarrow> (exn + unit) \<times> world" where
  "open_ports t rules w =
     (case get_existing_rules t w of
        (Inl e, w') \<Rightarrow> (Inl e, w')
      | (Inr existing_rules, w') \<Rightarrow> for_rules t existing_rules (iter rules) w')"

section \<open>Loading the configuration\<close>

text \<open>
  What \<^verbatim>\<open>yaml.load\<close> returns for a configuration file is taken as given: a list of
  entries, or \<^verbatim>\<open>None\<close> for an empty document. An entry is a mapping with the keys
  \<^verbatim>\<open>port\<close>, \<^verbatim>\<open>external_port\<close> and \<^verbatim>\<open>protocol\<close>, each present or not, or it is no
  mapping, and then \<^verbatim>\<open>rule['port']\<close> raises \<open>TypeError\<close>. (A document that is no
  sequence also raises \<open>TypeError\<close> before any rule is added, as a list that starts with
  such an entry does.) The values are integers and strings and nothing checks their range.
  Opening the file can fail with \<open>FileNotFoundError\<close>, and the text can fail to be YAML.
\<close>

record raw_rule =
  raw_port :: "int option"
  raw_external_port :: "int option"
  raw_protocol :: "string option"

datatype item = Mapping raw_rule | NotMapping

datatype opened = NoSuchFile | NotYaml | Loaded "item list option"

text \<open>
  \<^verbatim>\<open>self.add(rule['port'], rule.get('external_port'), rule['protocol'])\<close> for one
  entry: the arguments are evaluated from the left.
\<close>

definition add_rule :: "item \<Rightarrow> config \<Rightarrow> exn + config" where
  "add_rule i rules =
     (case i of
        NotMapping \<Rightarrow> Inl TypeError
      | Mapping r \<Rightarrow>
          (case raw_port r of
             None \<Rightarrow> Inl (KeyError ''port'')
           | Some p \<Rightarrow>
               (case raw_protocol r of
                  None \<Rightarrow> Inl (KeyError ''protocol'')
                | Some pr \<Rightarrow> Inr (add p (raw_external_port r) pr rules))))"

text \<open>
  The loop of \<^verbatim>\<open>Config.parse_rules\<close>. It adds to \<^verbatim>\<open>self._rules\<close> one entry at a
  time, so the rules added before an exception stay in the dictionary.
\<close>

fun add_rules :: "item list \<Rightarrow> config \<Rightarrow> (exn + unit) \<times> config" where
  "add_rules [] rules = (Inr (), rules)"
| "add_rules (i # others) rules =
     (case add_rule i rules of
        Inl e \<Rightarrow> (Inl e, rules)
      | Inr rules' \<Rightarrow> add_rules others rules')"

definition parse_rules :: "opened \<Rightarrow> config \<Rightarrow> (exn + unit) \<times> config" where
  "parse_rules f rules =
     (case f of
        NoSuchFile \<Rightarrow> (Inr (), [])
      | NotYaml \<Rightarrow> (Inl YAMLError, [])
      | Loaded None \<Rightarrow> (Inr (), [])
      | Loaded (Some recs) \<Rightarrow> (if recs = [] then (Inr (), []) else add_rules recs []))"

text \<open>
  The files as one load finds them: what \<^verbatim>\<open>is_file\<close> answers in \<^verbatim>\<open>find_config\<close>
  and what opening and reading the file gives in \<^verbatim>\<open>parse_rules\<close>.
\<close>

record filesystem =
  is_file :: "string \<Rightarrow> bool"
  open_load :: "string \<Rightarrow> opened"

definition find_config :: "filesystem \<Rightarrow> string list \<Rightarrow> exn + string" where
  "find_config fs config_files =
     (case filter (is_file fs) (rev config_files) of
        [] \<Rightarrow> Inl (RuntimeError ''No configuration found on given paths.'')
      | f # others \<Rightarrow> Inr f)"

text \<open>
  The handler of \<^verbatim>\<open>SIGUSR1\<close>, run from its first statement to its last without
  another signal in between.
\<close>

definition sigusr1_handler ::
  "filesystem \<Rightarrow> string list \<Rightarrow> config \<Rightarrow> world \<Rightarrow> (exn + unit) \<times> config \<times> world" where
  "sigusr1_handler fs config_files rules w =
     (case find_config fs config_files of
        Inl e \<Rightarrow> (Inl e, rules, w)
      | Inr f \<Rightarrow>
          (case parse_rules (open_load fs f) rules of
             (Inl e, rules') \<Rightarrow> (Inl e, rules', w)
           | (Inr u, rules') \<Rightarrow> (Inr (), rules', print ''Reloaded configuration file.'' w)))"

section \<open>The run loop\<close>

text \<open>
  \<^verbatim>\<open>run\<close> loads the configuration and then loops for ever: \<^verbatim>\<open>open_ports\<close>, a
  message, five minutes of sleep. Two signals reach it at any moment: \<^verbatim>\<open>SIGUSR1\<close> runs
  the handler that parses the configuration again into the same \<^verbatim>\<open>Config\<close> object,
  and \<^verbatim>\<open>SIGINT\<close> raises \<open>KeyboardInterrupt\<close>, the one exception that the loop catches.
  The loop is a machine driven by a list of events: \<open>Step\<close> lets the program run to its
  next point, the two others deliver a signal there.

  The points of a pass are: the listing is read; the iteration over the configuration
  starts (it reads the dictionary that \<^verbatim>\<open>self._rules\<close> names at that moment, and
  \<^verbatim>\<open>parse_rules\<close> binds \<^verbatim>\<open>self._rules\<close> to a new dictionary, so the iteration keeps
  the rules it started with); one rule is handled; the pass ends.

  A handler runs on the main thread, on top of the code it interrupted, and that code goes
  on when the handler returns. The handler is Python code as well, so a signal can be
  delivered while it runs, and then a second handler runs on top of the first. The points
  of a handler are: the configuration file is looked up; \<^verbatim>\<open>self._rules\<close> is bound to an
  empty dictionary; the file is opened, read and parsed; one entry is added to the
  dictionary that \<^verbatim>\<open>self._rules\<close> names at that moment; the message is printed and the
  handler returns. An exception in a handler passes through the handlers below it (their
  \<^verbatim>\<open>except\<close> clause is for \<open>FileNotFoundError\<close>, which no handler lets out) and
  reaches the loop.
\<close>

datatype handler =
    Started filesystem
  | Found filesystem string
  | Cleared filesystem string
  | Adding "item list"
  | Parsed

datatype phase =
    Ready
  | Listed "rule list"
  | Enforcing "rule list" "rule list"
  | Sleeping
  | Exited "exn option"
  | Reloading handler phase

record run_state =
  config :: config
  phase :: phase
  effects :: world

datatype event = Step | Sigusr1 filesystem | Sigint

text \<open>
  One step of a handler: an exception, the next point of the handler, or \<open>None\<close> when
  it returns; and the dictionary that \<^verbatim>\<open>self._rules\<close> names afterwards.
\<close>

definition handler_step ::
  "string list \<Rightarrow> handler \<Rightarrow> config \<Rightarrow> (exn + handler option) \<times> config" where
  "handler_step config_files h rules =
     (case h of
        Started fs \<Rightarrow>
          (case find_config fs config_files of
             Inl e \<Rightarrow> (Inl e, rules)
           | Inr f \<Rightarrow> (Inr (Some (Found fs f)), rules))
      | Found fs f \<Rightarrow> (Inr (Some (Cleared fs f)), [])
      | Cleared fs f \<Rightarrow>
          (case open_load fs f of
             NoSuchFile \<Rightarrow> (Inr (Some Parsed), rules)
           | NotYaml \<Rightarrow> (Inl YAMLError, rules)
           | Loaded None \<Rightarrow> (Inr (Some Parsed), rules)
           | Loaded (Some recs) \<Rightarrow>
               (if recs = [] then (Inr (Some Parsed), rules)
                else (Inr (Some (Adding recs)), rules)))
      | Adding [] \<Rightarrow> (Inr (Some Parsed), rules)
      | Adding (i # others) \<Rightarrow>
          (case add_rule i rules of
             Inl e \<Rightarrow> (Inl e, rules)
           | Inr rules' \<Rightarrow> (Inr (Some (Adding others)), rules'))
      | Parsed \<Rightarrow> (Inr None, rules))"

text \<open>An exception reaches \<^verbatim>\<open>except KeyboardInterrupt: return\<close>; any other leaves \<^verbatim>\<open>run\<close>.\<close>

definition raised :: "exn \<Rightarrow> phase" where
  "raised e = Exited (if e = KeyboardInterrupt then None else Some e)"

definition program_step :: "tool \<Rightarrow> string list \<Rightarrow> run_state \<Rightarrow> run_state" where
  "program_step t config_files s =
     (case phase s of
        Ready \<Rightarrow>
          (case get_existing_rules t (effects s) of
             (Inl e, w') \<Rightarrow> s\<lparr>phase := raised e, effects := w'\<rparr>
           | (Inr existing_rules, w') \<Rightarrow> s\<lparr>phase := Listed existing_rules, effects := w'\<rparr>)
      | Listed existing_rules \<Rightarrow> s\<lparr>phase := Enforcing existing_rules (iter (config s))\<rparr>
      | Enforcing existing_rules [] \<Rightarrow>
          s\<lparr>phase := Sleeping, effects := print ''Sleeping for 5 minutes.'' (effects s)\<rparr>
      | Enforcing existing_rules (r # rs) \<Rightarrow>
          (case open_port t existing_rules r (effects s) of
             (Inl e, w') \<Rightarrow> s\<lparr>phase := raised e, effects := w'\<rparr>
           | (Inr u, w') \<Rightarrow> s\<lparr>phase := Enforcing existing_rules rs, effects := w'\<rparr>)
      | Sleeping \<Rightarrow> s\<lparr>phase := Ready\<rparr>
      | Exited x \<Rightarrow> s
      | Reloading h interrupted \<Rightarrow>
          (case handler_step config_files h (config s) of
             (Inl e, rules') \<Rightarrow> s\<lparr>config := rules', phase := raised e\<rparr>
           | (Inr (Some h'), rules') \<Rightarrow> s\<lparr>config := rules', phase := Reloading h' interrupted\<rparr>
           | (Inr None, rules') \<Rightarrow>
               s\<lparr>config := rules', phase := interrupted,
                 effects := print ''Reloaded configuration file.'' (effects s)\<rparr>))"

definition step :: "tool \<Rightarrow> string list \<Rightarrow> run_state \<Rightarrow> event \<Rightarrow> run_state" where
  "step t config_files s ev =
     (case phase s of
        Exited x \<Rightarrow> s
      | _ \<Rightarrow>
          (case ev of
             Step \<Rightarrow> program_step t config_files s
           | Sigint \<Rightarrow> s\<lparr>phase := Exited None\<rparr>
           | Sigusr1 fs \<Rightarrow> s\<lparr>phase := Reloading (Started fs) (phase s)\<rparr>))"

text \<open>
  \<^verbatim>\<open>config = Config(find_config(config_files))\<close>, before the loop and outside its
  \<^verbatim>\<open>try\<close>, and before the handler is installed: an exception here leaves \<^verbatim>\<open>run\<close>
  at once.
\<close>

definition run_start :: "filesystem \<Rightarrow> string list \<Rightarrow> run_state" where
  "run_start fs config_files =
     (let w = \<lparr>invocations = [], printed = []\<rparr>
      in case find_config fs config_files of
           Inl e \<Rightarrow> \<lparr>config = [], phase = Exited (Some e), effects = w\<rparr>
         | Inr f \<Rightarrow>
             (case parse_rules (open_load fs f) [] of
                (Inl e, rules) \<Rightarrow> \<lparr>config = rules, phase = Exited (Some e), effects = w\<rparr>
              | (Inr u, rules) \<Rightarrow> \<lparr>config = rules, phase = Ready, effects = w\<rparr>))"

definition run :: "tool \<Rightarrow> filesystem \<Rightarrow> string list \<Rightarrow> event list \<Rightarrow> run_state" where
  "run t fs config_files events = foldl (step t config_files) (run_start fs config_files) events"

section \<open>Notions used in the statements\<close>

text \<open>
  A rule is normalized when it names its external port only if that port differs from
  the internal one.
\<close>

definition normalized :: "rule \<Rightarrow> bool" where
  "normalized r \<longleftrightarrow> external_port r \<noteq> Some (port r)"

text \<open>
  The shape of a line of interest as the specification words it: an optional index, the
  protocol \<^verbatim>\<open>TCP\<close> or \<^verbatim>\<open>UDP\<close> in either case, white space, the external port,
  \<^verbatim>\<open>->\<close>, anything, a colon and the port. This is the specification's pattern, not the
  pattern of \<^verbatim>\<open>get_existing_rules\<close>, which is \<open>re_match_digit_arrow\<close>.
\<close>

fun colon_digit :: "string \<Rightarrow> bool" where
  "colon_digit (c # d # cs) = ((c = CHR '':'' \<and> is_digit d) \<or> colon_digit (d # cs))"
| "colon_digit _ = False"

definition spec_line_shape :: "string \<Rightarrow> bool" where
  "spec_line_shape line =
     (let after_index = dropWhile is_space (dropWhile is_digit (dropWhile is_space line));
          after_protocol = drop 3 after_index;
          after_gap = dropWhile is_space after_protocol;
          after_external = dropWhile is_digit after_gap
      in (lower (take 3 after_index) = ''tcp'' \<or> lower (take 3 after_index) = ''udp'') \<and>
         after_gap \<noteq> after_protocol \<and> after_external \<noteq> after_gap \<and>
         take 2 after_external = ''->'' \<and> colon_digit (drop 2 after_external))"

text \<open>
  The complete rule set of a configuration: what \<^verbatim>\<open>find_config\<close> and
  \<^verbatim>\<open>parse_rules\<close> leave in the \<^verbatim>\<open>Config\<close> object when neither raises.
\<close>

definition load :: "filesystem \<Rightarrow> string list \<Rightarrow> config option" where
  "load fs config_files =
     (case find_config fs config_files of
        Inl e \<Rightarrow> None
      | Inr f \<Rightarrow>
          (case parse_rules (open_load fs f) [] of
             (Inl e, rules) \<Rightarrow> None
           | (Inr u, rules) \<Rightarrow> Some rules))"

text \<open>The file systems that the reload signals of a list of events find, in order.\<close>

fun reloads :: "event list \<Rightarrow> filesystem list" where
  "reloads [] = []"
| "reloads (Sigusr1 fs # events) = fs # reloads events"
| "reloads (Step # events) = reloads events"
| "reloads (Sigint # events) = reloads events"

text \<open>
  A malformed configuration: the file found is not YAML, or it holds an entry that is no
  mapping or that lacks its port or its protocol.
\<close>

definition bad_item :: "item \<Rightarrow> bool" where
  "bad_item i =
     (case i of NotMapping \<Rightarrow> True | Mapping r \<Rightarrow> raw_port r = None \<or> raw_protocol r = None)"

definition malformed :: "filesystem \<Rightarrow> string list \<Rightarrow> bool" where
  "malformed fs config_files =
     (case find_config fs config_files of
        Inl e \<Rightarrow> False
      | Inr f \<Rightarrow>
          (case open_load fs f of
             NoSuchFile \<Rightarrow> False
           | NotYaml \<Rightarrow> True
           | Loaded None \<Rightarrow> False
           | Loaded (Some recs) \<Rightarrow> list_ex bad_item recs))"

text \<open>A run goes on until an exception or \<^verbatim>\<open>return\<close> has left \<^verbatim>\<open>run\<close>.\<close>

definition running :: "run_state \<Rightarrow> bool" where
  "running s = (case phase s of Exited x \<Rightarrow> False | _ \<Rightarrow> True)"

text \<open>A handler is running; and the point of the loop below all running handlers.\<close>

definition handling :: "run_state \<Rightarrow> bool" where
  "handling s = (case phase s of Reloading h p \<Rightarrow> True | _ \<Rightarrow> False)"

fun interrupted_point :: "phase \<Rightarrow> phase" where
  "interrupted_point (Reloading h p) = interrupted_point p"
| "interrupted_point p = p"

text \<open>
  No reload signal of the events is delivered while a handler is running: from the state
  \<open>s\<close> on, every \<open>Sigusr1\<close> arrives in a state that is not handling.
\<close>

fun unnested :: "tool \<Rightarrow> string list \<Rightarrow> run_state \<Rightarrow> event list \<Rightarrow> bool" where
  "unnested t config_files s [] = True"
| "unnested t config_files s (e # events) =
     ((case e of Sigusr1 fs \<Rightarrow> \<not> handling s | _ \<Rightarrow> True) \<and>
      unnested t config_files (step t config_files s e) events)"

text \<open>
  What a handler does from one of its points when no signal is delivered before it returns:
  the exception or the return, and the dictionary it leaves.
\<close>

definition run_handler :: "string list \<Rightarrow> handler \<Rightarrow> config \<Rightarrow> (exn + unit) \<times> config" where
  "run_handler config_files h rules =
     (case h of
        Started fs \<Rightarrow>
          (case find_config fs config_files of
             Inl e \<Rightarrow> (Inl e, rules)
           | Inr f \<Rightarrow> parse_rules (open_load fs f) rules)
      | Found fs f \<Rightarrow> parse_rules (open_load fs f) rules
      | Cleared fs f \<Rightarrow>
          (case open_load fs f of
             NoSuchFile \<Rightarrow> (Inr (), rules)
           | NotYaml \<Rightarrow> (Inl YAMLError, rules)
           | Loaded None \<Rightarrow> (Inr (), rules)
           | Loaded (Some recs) \<Rightarrow> add_rules recs rules)
      | Adding recs \<Rightarrow> add_rules recs rules
      | Parsed \<Rightarrow> (Inr (), rules))"

text \<open>
  The invariant of the run loop when handlers do not nest: the rules that a pass still has
  to handle are the rest of a complete rule set loaded so far; outside a handler the
  \<^verbatim>\<open>Config\<close> object holds the complete rule set of the last configuration loaded; and
  a handler, run to its end, leaves that rule set, or raises if there is none.
\<close>

definition snapshot_ok :: "string list \<Rightarrow> filesystem list \<Rightarrow> phase \<Rightarrow> bool" where
  "snapshot_ok config_files loads p \<longleftrightarrow>
     (\<forall>ex rs. interrupted_point p = Enforcing ex rs \<longrightarrow>
        (\<exists>fs\<in>set loads. \<exists>c pre. load fs config_files = Some c \<and> iter c = pre @ rs))"

definition handler_ok :: "string list \<Rightarrow> filesystem list \<Rightarrow> handler \<Rightarrow> config \<Rightarrow> bool" where
  "handler_ok config_files loads h rules =
     (case run_handler config_files h rules of
        (Inl e, c) \<Rightarrow> load (last loads) config_files = None
      | (Inr u, c) \<Rightarrow> load (last loads) config_files = Some c)"

definition complete_inv :: "string list \<Rightarrow> filesystem list \<Rightarrow> run_state \<Rightarrow> bool" where
  "complete_inv config_files loads s \<longleftrightarrow>
     (running s \<longrightarrow>
        snapshot_ok config_files loads (phase s) \<and>
        (case phase s of
           Reloading h p \<Rightarrow>
             \<not> handling (s\<lparr>phase := p\<rparr>) \<and> handler_ok config_files loads h (config s)
         | _ \<Rightarrow> load (last loads) config_files = Some (config s)))"

text \<open>The state in which a handler, run to its end from a point, leaves the run.\<close>

definition handler_result :: "string list \<Rightarrow> handler \<Rightarrow> config \<Rightarrow> phase \<Rightarrow> world \<Rightarrow> run_state" where
  "handler_result config_files h c p w =
     (case run_handler config_files h c of
        (Inl e, c') \<Rightarrow> \<lparr>config = c', phase = raised e, effects = w\<rparr>
      | (Inr u, c') \<Rightarrow>
          \<lparr>config = c', phase = p, effects = print ''Reloaded configuration file.'' w\<rparr>)"

section \<open>Evaluation and frame lemmas\<close>

lemmas eval_simps = parse_rule_str_def drop_leading_empty_def is_space_def is_digit_def
  lower_def lower_char_def py_int_def decimal_def digit_val_def Let_def char_of_eq_iff
  str_def str_nat.simps digit_char_def split_lines_def keep_lines_def re_match_digit_arrow_def
  get_existing_rules_def call_def decode_def list_command_def open_ports_def open_port_def
  iter_def redirect_command_def format_def get_external_port_def print_def

lemma invocations_print [simp]: "invocations (print l w) = invocations w"
  by (simp add: print_def)

lemma invocations_call [simp]: "invocations (snd (call t c w)) = invocations w @ [c]"
  by (simp add: call_def Let_def split: response.splits)

lemma get_existing_rules_invocations [simp]:
  "invocations (snd (get_existing_rules t w)) = invocations w @ [list_command]"
proof -
  obtain res w' where c: "call t list_command w = (res, w')"
    by (cases "call t list_command w")
  then have "invocations w' = invocations w @ [list_command]"
    using invocations_call [of t list_command w] by simp
  with c show ?thesis
    by (simp add: get_existing_rules_def split: sum.splits)
qed

text \<open>No token of \<open>re_split\<close> holds white space, so \<^verbatim>\<open>int\<close> has nothing to strip.\<close>

lemma re_split_no_space:
  "\<forall>c\<in>set cur. \<not> is_space c \<Longrightarrow> \<forall>tok\<in>set (re_split cur s). \<forall>c\<in>set tok. \<not> is_space c"
proof (induction cur s rule: re_split.induct)
  case (1 cur)
  then show ?case by simp
next
  case (2 cur c cs)
  have e: "\<forall>c\<in>set ([]::string). \<not> is_space c" by simp
  show ?case
  proof (cases "is_space c")
    case True
    with "2.IH"(1) [OF True e] "2.prems" show ?thesis by simp
  next
    case sp: False
    show ?thesis
    proof (cases "c = CHR ''-'' \<and> take 1 cs = ''>''")
      case True
      with "2.IH"(2) [OF sp True e] "2.prems" sp show ?thesis by simp
    next
      case ar: False
      show ?thesis
      proof (cases "c = CHR '':''")
        case True
        with "2.IH"(3) [OF sp ar True e] "2.prems" sp ar show ?thesis by simp
      next
        case False
        from "2.prems" sp have "\<forall>x\<in>set (c # cur). \<not> is_space x" by simp
        from "2.IH"(4) [OF sp ar False this] sp ar False show ?thesis by simp blast
      qed
    qed
  qed
qed

section \<open>Both sides of the comparison are normalized\<close>

lemma parse_rule_str_normalized: "parse_rule_str l = Inr a \<Longrightarrow> normalized a"
  by (auto simp: parse_rule_str_def normalized_def Let_def split: if_splits sum.splits)

lemma parse_rule_strs_normalized:
  "parse_rule_strs ls = Inr rs \<Longrightarrow> \<forall>a\<in>set rs. normalized a"
proof (induction ls arbitrary: rs)
  case Nil
  then show ?case by simp
next
  case (Cons l ls)
  then show ?case
    by (auto split: sum.splits dest: parse_rule_str_normalized)
qed

lemma get_existing_rules_normalized:
  assumes "get_existing_rules t w = (Inr existing, w')"
  shows "\<forall>a\<in>set existing. normalized a"
  using assms
  by (auto simp: get_existing_rules_def split: prod.splits sum.splits
      dest!: parse_rule_strs_normalized)

lemma iter_normalized: "\<forall>r\<in>set (iter rules). normalized r"
  by (auto simp: iter_def normalized_def split: if_splits)

lemma normalized_eqI:
  assumes "normalized r" "normalized a" "port a = port r" "protocol a = protocol r"
    "get_external_port a = get_external_port r"
  shows "a = r"
  using assms
  by (cases r; cases a) (auto simp: normalized_def get_external_port_def split: option.splits)

section \<open>The example lines of the listing\<close>

text \<open>
  C3. The line \<^verbatim>\<open>1 TCP 8080->192.168.1.5:80\<close> is parsed to the rule with port 80, protocol
  \<^verbatim>\<open>tcp\<close> and external port 8080; the line \<^verbatim>\<open>2 UDP 53->192.168.1.5:53\<close> to the rule with
  port 53 and protocol \<^verbatim>\<open>udp\<close> and no external port, the protocol in lower case. A listing
  made of the two lines gives the two rules in that order.
\<close>

theorem parse_example_lines:
  "parse_rule_str ''1 TCP 8080->192.168.1.5:80''
     = Inr \<lparr>port = 80, protocol = ''tcp'', external_port = Some 8080\<rparr> \<and>
   parse_rule_str ''2 UDP 53->192.168.1.5:53''
     = Inr \<lparr>port = 53, protocol = ''udp'', external_port = None\<rparr> \<and>
   fst (get_existing_rules
      (\<lambda>h c. Returns (Utf8 (''1 TCP 8080->192.168.1.5:80'' @ [CHR 0x0A]
                               @ ''2 UDP 53->192.168.1.5:53''))) w)
     = Inr [\<lparr>port = 80, protocol = ''tcp'', external_port = Some 8080\<rparr>,
            \<lparr>port = 53, protocol = ''udp'', external_port = None\<rparr>]"
  by (simp add: eval_simps)

section \<open>A pass over rules that are all present\<close>

lemma for_rules_all_present:
  "set rs \<subseteq> set existing \<Longrightarrow>
     fst (for_rules t existing rs w) = Inr () \<and>
     invocations (snd (for_rules t existing rs w)) = invocations w"
  by (induction rs arbitrary: w) (auto simp: open_port_def)

text \<open>
  C1. When the listing that \<^verbatim>\<open>get_existing_rules\<close> returns holds, for every desired
  rule, a rule with the same port, protocol and external port (the external port of each
  side read with its default, the port), \<^verbatim>\<open>open_ports\<close> ends without an exception and
  starts the tool once, for the listing: no rule is applied. The Python function returns
  nothing; the rules it applies are the \<^verbatim>\<open>upnpc -r\<close> invocations it makes, here none.
  The statement holds for the empty configuration as well.
\<close>

theorem open_ports_idempotent:
  assumes "get_existing_rules t w = (Inr existing, w1)"
    and "\<forall>r\<in>set (iter rules). \<exists>a\<in>set existing.
           port a = port r \<and> protocol a = protocol r \<and>
           get_external_port a = get_external_port r"
  shows "fst (open_ports t rules w) = Inr () \<and>
         invocations (snd (open_ports t rules w)) = invocations w @ [list_command]"
proof -
  have "set (iter rules) \<subseteq> set existing"
  proof
    fix r assume r: "r \<in> set (iter rules)"
    with assms(2) obtain a where a: "a \<in> set existing" "port a = port r"
      "protocol a = protocol r" "get_external_port a = get_external_port r"
      by blast
    from r have "normalized r" using iter_normalized by blast
    moreover from a(1) have "normalized a"
      using get_existing_rules_normalized [OF assms(1)] by blast
    ultimately have "a = r" using a(2-4) by (rule normalized_eqI)
    with a(1) show "r \<in> set existing" by simp
  qed
  then have "fst (for_rules t existing (iter rules) w1) = Inr () \<and>
     invocations (snd (for_rules t existing (iter rules) w1)) = invocations w1"
    by (rule for_rules_all_present)
  moreover have "invocations w1 = invocations w @ [list_command]"
    using get_existing_rules_invocations [of t w] assms(1) by simp
  ultimately show ?thesis
    using assms(1) by (simp add: open_ports_def)
qed

theorem open_ports_idempotent_witness:
  "fst (open_ports
     (\<lambda>h c. if c = [''upnpc'', ''-l'']
          then Returns (Utf8 '' 0 TCP 8080->192.168.1.5:80'') else Raises OSError)
     [((80, ''tcp''), 8080)] \<lparr>invocations = [], printed = []\<rparr>) = Inr () \<and>
   invocations (snd (open_ports
     (\<lambda>h c. if c = [''upnpc'', ''-l'']
          then Returns (Utf8 '' 0 TCP 8080->192.168.1.5:80'') else Raises OSError)
     [((80, ''tcp''), 8080)] \<lparr>invocations = [], printed = []\<rparr>)) = [[''upnpc'', ''-l'']]"
proof -
  let ?t = "\<lambda>(h::command list) c. if c = [''upnpc'', ''-l'']
          then Returns (Utf8 '' 0 TCP 8080->192.168.1.5:80'') else Raises OSError"
  let ?w = "\<lparr>invocations = [], printed = []\<rparr>"
  have g: "get_existing_rules ?t ?w =
     (Inr [\<lparr>port = 80, protocol = ''tcp'', external_port = Some 8080\<rparr>],
      \<lparr>invocations = [[''upnpc'', ''-l'']], printed = []\<rparr>)"
    by (simp add: eval_simps)
  have h: "\<forall>r\<in>set (iter [((80, ''tcp''), 8080)]).
      \<exists>a\<in>set [\<lparr>port = 80, protocol = ''tcp'', external_port = Some 8080\<rparr>].
           port a = port r \<and> protocol a = protocol r \<and>
           get_external_port a = get_external_port r"
    by (simp add: iter_def get_external_port_def)
  show ?thesis
    using open_ports_idempotent [OF g h] by (simp add: list_command_def)
qed

section \<open>The invocations of a pass\<close>

lemma open_port_invocations:
  "invocations (snd (open_port t ex r w)) =
     invocations w @ (if r \<in> set ex then [] else [redirect_command r])"
proof (cases "r \<in> set ex")
  case True
  then show ?thesis by (simp add: open_port_def)
next
  case False
  obtain res w' where c: "call t (redirect_command r) (print (''enforcing rule '' @ format r) w) = (res, w')"
    by (cases "call t (redirect_command r) (print (''enforcing rule '' @ format r) w)")
  then have "invocations w' = invocations w @ [redirect_command r]"
    using invocations_call [of t "redirect_command r" "print (''enforcing rule '' @ format r) w"]
    by simp
  with c False show ?thesis
    by (simp add: open_port_def split: sum.splits)
qed

lemma for_rules_invocations:
  "\<exists>applied. set applied \<subseteq> set rs \<and>
     invocations (snd (for_rules t ex rs w)) = invocations w @ map redirect_command applied"
proof (induction rs arbitrary: w)
  case Nil
  show ?case by (rule exI [of _ "[]"]) simp
next
  case (Cons r rs)
  obtain res w' where o: "open_port t ex r w = (res, w')"
    by (cases "open_port t ex r w")
  then have w': "invocations w' =
      invocations w @ (if r \<in> set ex then [] else [redirect_command r])"
    using open_port_invocations [of t ex r w] by simp
  show ?case
  proof (cases res)
    case (Inl e)
    with o w' show ?thesis
      by (intro exI [of _ "if r \<in> set ex then [] else [r]"]) simp
  next
    case (Inr u)
    from Cons.IH [of w'] obtain applied where a: "set applied \<subseteq> set rs"
      "invocations (snd (for_rules t ex rs w')) = invocations w' @ map redirect_command applied"
      by blast
    with o w' Inr show ?thesis
      by (intro exI [of _ "(if r \<in> set ex then [] else [r]) @ applied"]) auto
  qed
qed

text \<open>
  C4. Whatever the configuration, the tool and the listing, and whether or not an
  exception ends the pass, the invocations of \<^verbatim>\<open>open_ports\<close> are the listing
  \<^verbatim>\<open>upnpc -l\<close>, once and first, followed by redirections \<^verbatim>\<open>upnpc -r ...\<close> of desired
  rules only. No other operation of the tool is started, none that removes a rule.
\<close>

theorem open_ports_lists_and_redirects_only:
  "\<exists>applied. set applied \<subseteq> set (iter rules) \<and>
     invocations (snd (open_ports t rules w))
       = invocations w @ list_command # map redirect_command applied \<and>
     list_command = [''upnpc'', ''-l''] \<and>
     (\<forall>r. take 2 (redirect_command r) = [''upnpc'', ''-r''])"
proof -
  obtain res w1 where g: "get_existing_rules t w = (res, w1)"
    by (cases "get_existing_rules t w")
  then have w1: "invocations w1 = invocations w @ [list_command]"
    using get_existing_rules_invocations [of t w] by simp
  have shape: "list_command = [''upnpc'', ''-l''] \<and>
     (\<forall>r. take 2 (redirect_command r) = [''upnpc'', ''-r''])"
    by (simp add: list_command_def redirect_command_def)
  show ?thesis
  proof (cases res)
    case (Inl e)
    with g w1 shape show ?thesis
      by (intro exI [of _ "[]"]) (simp add: open_ports_def)
  next
    case (Inr ex)
    obtain applied where "set applied \<subseteq> set (iter rules)"
      "invocations (snd (for_rules t ex (iter rules) w1))
         = invocations w1 @ map redirect_command applied"
      using for_rules_invocations [of "iter rules" t ex w1] by blast
    with g w1 Inr shape show ?thesis
      by (intro exI [of _ applied]) (simp add: open_ports_def)
  qed
qed

section \<open>A desired rule whose external port differs from the active one\<close>

lemma for_rules_single:
  "invocations (snd (for_rules t ex [r] w)) = invocations (snd (open_port t ex r w))"
  by (cases "open_port t ex r w") (auto split: sum.splits)

text \<open>
  C5. The desired rules are port 443, \<^verbatim>\<open>tcp\<close>, external port 8443, and the listing
  reports port 443, \<^verbatim>\<open>tcp\<close>, external port 443 (the rule without an external port). The
  desired rule is not in the listing, and the pass makes exactly two invocations: the
  listing, and the redirection of port 443 to external port 8443 over \<^verbatim>\<open>tcp\<close>. Nothing
  removes the active rule.
\<close>

theorem external_port_mismatch_is_applied:
  assumes "get_existing_rules t w
     = (Inr [\<lparr>port = 443, protocol = ''tcp'', external_port = None\<rparr>], w1)"
  shows "invocations (snd (open_ports t (add 443 (Some 8443) ''tcp'' []) w))
     = invocations w @ [[''upnpc'', ''-l''], [''upnpc'', ''-r'', ''443'', ''8443'', ''tcp'']]"
proof -
  have w1: "invocations w1 = invocations w @ [list_command]"
    using get_existing_rules_invocations [of t w] assms by simp
  have i: "iter (add 443 (Some 8443) ''tcp'' [])
     = [\<lparr>port = 443, protocol = ''tcp'', external_port = Some 8443\<rparr>]"
    by (simp add: iter_def add_def)
  have r: "redirect_command \<lparr>port = 443, protocol = ''tcp'', external_port = Some 8443\<rparr>
     = [''upnpc'', ''-r'', ''443'', ''8443'', ''tcp'']"
    by (simp add: redirect_command_def str_def str_nat.simps digit_char_def)
  have "invocations (snd (open_port t [\<lparr>port = 443, protocol = ''tcp'', external_port = None\<rparr>]
      \<lparr>port = 443, protocol = ''tcp'', external_port = Some 8443\<rparr> w1))
     = invocations w1 @ [[''upnpc'', ''-r'', ''443'', ''8443'', ''tcp'']]"
    using open_port_invocations [of t "[\<lparr>port = 443, protocol = ''tcp'', external_port = None\<rparr>]"
        "\<lparr>port = 443, protocol = ''tcp'', external_port = Some 8443\<rparr>" w1] r
    by simp
  with assms w1 i show ?thesis
    by (simp add: open_ports_def list_command_def for_rules_single del: for_rules.simps)
qed

theorem external_port_mismatch_is_applied_witness:
  "invocations (snd (open_ports
      (\<lambda>h c. Returns (Utf8 (if c = [''upnpc'', ''-l''] then ''0 TCP 443->192.168.1.5:443'' else [])))
      (add 443 (Some 8443) ''tcp'' []) \<lparr>invocations = [], printed = []\<rparr>))
     = [[''upnpc'', ''-l''], [''upnpc'', ''-r'', ''443'', ''8443'', ''tcp'']]"
proof -
  have g: "get_existing_rules
      (\<lambda>h c. Returns (Utf8 (if c = [''upnpc'', ''-l''] then ''0 TCP 443->192.168.1.5:443'' else [])))
      \<lparr>invocations = [], printed = []\<rparr>
     = (Inr [\<lparr>port = 443, protocol = ''tcp'', external_port = None\<rparr>],
        \<lparr>invocations = [[''upnpc'', ''-l'']], printed = []\<rparr>)"
    by (simp add: eval_simps)
  show ?thesis
    using external_port_mismatch_is_applied [OF g] by simp
qed

section \<open>A pass against an empty listing\<close>

lemma for_rules_none_present:
  assumes "\<forall>h. \<forall>r\<in>set rs. \<exists>out. t h (redirect_command r) = Returns out"
  shows "fst (for_rules t [] rs w) = Inr () \<and>
     invocations (snd (for_rules t [] rs w)) = invocations w @ map redirect_command rs"
  using assms
proof (induction rs arbitrary: w)
  case Nil
  then show ?case by simp
next
  case (Cons r rs)
  from Cons.prems obtain out where
    out: "t (invocations w) (redirect_command r) = Returns out"
    by (metis list.set_intros(1))
  have o: "open_port t [] r w = (Inr (),
      print (''enforcing rule '' @ format r) w\<lparr>invocations := invocations w @ [redirect_command r]\<rparr>)"
    using out by (simp add: open_port_def call_def Let_def print_def)
  from Cons.prems have "\<forall>h. \<forall>r\<in>set rs. \<exists>out. t h (redirect_command r) = Returns out"
    by simp
  from Cons.IH [OF this] o show ?case
    by (simp add: print_def)
qed

lemma redirect_command_iter:
  "map redirect_command (iter rules)
     = map (\<lambda>((p, pr), e). [''upnpc'', ''-r'', str p] @ (if e \<noteq> p then [str e] else []) @ [pr]) rules"
  by (auto simp: iter_def redirect_command_def)

text \<open>
  C2, amended. When the listing is empty and no redirection raises an exception, the pass
  ends without an exception and makes, after the listing, exactly one redirection for each
  rule of the configuration, in the order of the configuration: \<^verbatim>\<open>upnpc -r\<close>, the
  port, the external port if and only if it differs from the port, the protocol.
\<close>

theorem open_ports_empty_listing:
  assumes "get_existing_rules t w = (Inr [], w1)"
    and "\<forall>h. \<forall>r\<in>set (iter rules). \<exists>out. t h (redirect_command r) = Returns out"
  shows "fst (open_ports t rules w) = Inr () \<and>
     invocations (snd (open_ports t rules w))
       = invocations w @ [''upnpc'', ''-l'']
           # map (\<lambda>((p, pr), e).
                   [''upnpc'', ''-r'', str p] @ (if e \<noteq> p then [str e] else []) @ [pr]) rules"
proof -
  have w1: "invocations w1 = invocations w @ [list_command]"
    using get_existing_rules_invocations [of t w] assms(1) by simp
  from for_rules_none_present [OF assms(2), of w1] w1 assms(1) show ?thesis
    by (simp add: open_ports_def redirect_command_iter list_command_def)
qed

theorem open_ports_empty_listing_witness:
  "fst (open_ports (\<lambda>h c. Returns (Utf8 []))
      [((80, ''tcp''), 80), ((443, ''tcp''), 8443)] \<lparr>invocations = [], printed = []\<rparr>) = Inr () \<and>
   invocations (snd (open_ports (\<lambda>h c. Returns (Utf8 []))
      [((80, ''tcp''), 80), ((443, ''tcp''), 8443)] \<lparr>invocations = [], printed = []\<rparr>))
     = [[''upnpc'', ''-l''], [''upnpc'', ''-r'', ''80'', ''tcp''],
        [''upnpc'', ''-r'', ''443'', ''8443'', ''tcp'']]"
proof -
  have g: "get_existing_rules (\<lambda>h c. Returns (Utf8 [])) \<lparr>invocations = [], printed = []\<rparr>
     = (Inr [], \<lparr>invocations = [[''upnpc'', ''-l'']], printed = []\<rparr>)"
    by (simp add: eval_simps)
  have h: "\<forall>h. \<forall>r\<in>set (iter [((80, ''tcp''), 80), ((443, ''tcp''), 8443)]).
      \<exists>out. (\<lambda>h c. Returns (Utf8 [])) h (redirect_command r) = Returns out"
    by simp
  show ?thesis
    using open_ports_empty_listing [OF g h] by (simp add: str_def str_nat.simps digit_char_def)
qed

text \<open>
  C2 as stated does not hold: \<^verbatim>\<open>call\<close> raises when the tool cannot be started, and the
  exception ends the loop of \<^verbatim>\<open>open_ports\<close>. With two desired rules, an empty listing
  and a tool that is no longer found after the listing, one redirection is attempted, not
  two.
\<close>

theorem open_ports_stops_at_failing_redirect:
  "fst (get_existing_rules
      (\<lambda>h c. if c = [''upnpc'', ''-l''] then Returns (Utf8 []) else Raises FileNotFoundError)
      \<lparr>invocations = [], printed = []\<rparr>) = Inr [] \<and>
   length (iter [((80, ''tcp''), 80), ((443, ''tcp''), 443)]) = 2 \<and>
   open_ports
      (\<lambda>h c. if c = [''upnpc'', ''-l''] then Returns (Utf8 []) else Raises FileNotFoundError)
      [((80, ''tcp''), 80), ((443, ''tcp''), 443)] \<lparr>invocations = [], printed = []\<rparr>
     = (Inl (RuntimeError ''Could not find upnpc executable, is miniupnpc installed?''),
        \<lparr>invocations = [[''upnpc'', ''-l''], [''upnpc'', ''-r'', ''80'', ''tcp'']],
         printed = [''enforcing rule 80->80 tcp'']\<rparr>)"
  by (simp add: eval_simps)

section \<open>Lines that are kept and do not parse\<close>

lemma py_int_error: "py_int s = Inl e \<Longrightarrow> e = ValueError"
  by (auto simp: py_int_def split: list.splits if_splits)

lemma parse_rule_str_error:
  "parse_rule_str l = Inl e \<Longrightarrow> e = ValueError \<or> e = IndexError"
  by (auto simp: parse_rule_str_def Let_def split: if_splits sum.splits dest: py_int_error)

lemma parse_rule_strs_error:
  "parse_rule_strs ls = Inl e \<Longrightarrow> e = ValueError \<or> e = IndexError"
proof (induction ls)
  case Nil
  then show ?case by simp
next
  case (Cons l ls)
  then show ?case
    by (auto split: sum.splits dest: parse_rule_str_error)
qed

lemma parse_rule_strs_fails:
  "l \<in> set ls \<Longrightarrow> parse_rule_str l = Inl e \<Longrightarrow> \<exists>e'. parse_rule_strs ls = Inl e'"
  by (induction ls) (auto split: sum.splits)

lemma parse_rule_str_bad_token:
  assumes "(2 < length (drop_leading_empty (re_split [] l)) \<and>
            py_int (drop_leading_empty (re_split [] l) ! 2) = Inl ValueError) \<or>
           (4 < length (drop_leading_empty (re_split [] l)) \<and>
            py_int (drop_leading_empty (re_split [] l) ! 4) = Inl ValueError)"
  shows "\<exists>e. parse_rule_str l = Inl e"
  using assms
  by (auto simp: parse_rule_str_def Let_def split: sum.splits)

lemma get_existing_rules_returned:
  assumes "t (invocations w) list_command = Returns (Utf8 listing)"
  shows "get_existing_rules t w =
     (parse_rule_strs (keep_lines (split_lines listing) re_match_digit_arrow),
      w\<lparr>invocations := invocations w @ [list_command]\<rparr>)"
  using assms by (simp add: get_existing_rules_def call_def decode_def Let_def)

lemma raised_parse_error: "e = ValueError \<or> e = IndexError \<Longrightarrow> raised e = Exited (Some e)"
  by (auto simp: raised_def)

text \<open>
  C7. When a line kept by \<^verbatim>\<open>get_existing_rules\<close> has, in the position of the external
  port or of the port, a token that \<^verbatim>\<open>int\<close> does not accept, \<^verbatim>\<open>get_existing_rules\<close>
  returns no rules: it raises \<open>ValueError\<close> (or \<open>IndexError\<close>, when that line or a
  kept line before it is too short), the two exceptions that parsing the listing can
  raise. The line is not skipped. The exception passes through \<^verbatim>\<open>open_ports\<close>, which has started the
  listing only, and out of the loop of \<^verbatim>\<open>run\<close>.
\<close>

theorem bad_port_token_is_fatal:
  assumes "t (invocations w) list_command = Returns (Utf8 listing)"
    and "l \<in> set (keep_lines (split_lines listing) re_match_digit_arrow)"
    and "(2 < length (drop_leading_empty (re_split [] l)) \<and>
          py_int (drop_leading_empty (re_split [] l) ! 2) = Inl ValueError) \<or>
         (4 < length (drop_leading_empty (re_split [] l)) \<and>
          py_int (drop_leading_empty (re_split [] l) ! 4) = Inl ValueError)"
  shows "\<exists>e. (e = ValueError \<or> e = IndexError) \<and>
     get_existing_rules t w = (Inl e, w\<lparr>invocations := invocations w @ [list_command]\<rparr>) \<and>
     open_ports t rules w = (Inl e, w\<lparr>invocations := invocations w @ [list_command]\<rparr>) \<and>
     phase (step t config_files \<lparr>config = rules, phase = Ready, effects = w\<rparr> Step)
       = Exited (Some e)"
proof -
  from assms(3) obtain e0 where "parse_rule_str l = Inl e0"
    using parse_rule_str_bad_token by blast
  with assms(2) obtain e where
    e: "parse_rule_strs (keep_lines (split_lines listing) re_match_digit_arrow) = Inl e"
    using parse_rule_strs_fails by blast
  then have k: "e = ValueError \<or> e = IndexError"
    by (rule parse_rule_strs_error)
  from e have g: "get_existing_rules t w
      = (Inl e, w\<lparr>invocations := invocations w @ [list_command]\<rparr>)"
    using get_existing_rules_returned [of t w listing, OF assms(1)] by simp
  then have "open_ports t rules w = (Inl e, w\<lparr>invocations := invocations w @ [list_command]\<rparr>)"
    by (simp add: open_ports_def)
  moreover from g k have
    "phase (step t config_files \<lparr>config = rules, phase = Ready, effects = w\<rparr> Step)
       = Exited (Some e)"
    by (simp add: step_def program_step_def raised_parse_error)
  ultimately show ?thesis using k g by blast
qed

theorem bad_port_token_is_fatal_witness:
  "\<exists>e. (e = ValueError \<or> e = IndexError) \<and>
     get_existing_rules (\<lambda>h c. Returns (Utf8 ''0 TCP 8080->192.168.1.5:http''))
         \<lparr>invocations = [], printed = []\<rparr>
       = (Inl e, \<lparr>invocations = [[''upnpc'', ''-l'']], printed = []\<rparr>) \<and>
     open_ports (\<lambda>h c. Returns (Utf8 ''0 TCP 8080->192.168.1.5:http''))
         [((80, ''tcp''), 80)] \<lparr>invocations = [], printed = []\<rparr>
       = (Inl e, \<lparr>invocations = [[''upnpc'', ''-l'']], printed = []\<rparr>)"
proof -
  let ?t = "\<lambda>(h::command list) (c::command). Returns (Utf8 ''0 TCP 8080->192.168.1.5:http'')"
  let ?w = "\<lparr>invocations = [], printed = []\<rparr>"
  have a: "?t (invocations ?w) list_command = Returns (Utf8 ''0 TCP 8080->192.168.1.5:http'')"
    by simp
  have b: "''0 TCP 8080->192.168.1.5:http''
      \<in> set (keep_lines (split_lines ''0 TCP 8080->192.168.1.5:http'') re_match_digit_arrow)"
    by (simp add: eval_simps)
  have c: "(2 < length (drop_leading_empty (re_split [] ''0 TCP 8080->192.168.1.5:http'')) \<and>
       py_int (drop_leading_empty (re_split [] ''0 TCP 8080->192.168.1.5:http'') ! 2)
         = Inl ValueError) \<or>
      (4 < length (drop_leading_empty (re_split [] ''0 TCP 8080->192.168.1.5:http'')) \<and>
       py_int (drop_leading_empty (re_split [] ''0 TCP 8080->192.168.1.5:http'') ! 4)
         = Inl ValueError)"
    by (simp add: eval_simps)
  show ?thesis
    using bad_port_token_is_fatal [of ?t ?w "''0 TCP 8080->192.168.1.5:http''" "''0 TCP 8080->192.168.1.5:http''", OF a b c, of "[((80, ''tcp''), 80)]" "[]"]
    by (auto simp: list_command_def)
qed

section \<open>Normalization at both boundaries\<close>

text \<open>
  C10. Every rule that iterating the configuration yields is normalized, and its external
  port, read with the default, is the external port stored for it. Every rule parsed from
  a line of the listing is normalized, and its external port, read with the default, is
  the number in the line. So a rule carries the field exactly when the external port
  differs from the port, and membership of a desired rule in the listing by equality of
  the dictionaries is the same as the comparison of port, protocol and external port with
  its default.
\<close>

theorem rules_are_normalized:
  "(\<forall>r\<in>set (iter rules). normalized r) \<and>
   map (\<lambda>r. ((port r, protocol r), get_external_port r)) (iter rules) = rules \<and>
   (parse_rule_str l = Inr a \<longrightarrow>
      normalized a \<and>
      py_int (drop_leading_empty (re_split [] l) ! 2) = Inr (get_external_port a)) \<and>
   (get_existing_rules t w = (Inr existing, w') \<longrightarrow>
      (\<forall>a\<in>set existing. normalized a) \<and>
      (\<forall>r\<in>set (iter rules).
         r \<in> set existing \<longleftrightarrow>
         (\<exists>a\<in>set existing. port a = port r \<and> protocol a = protocol r \<and>
             get_external_port a = get_external_port r)))"
proof (intro conjI impI)
  show "\<forall>r\<in>set (iter rules). normalized r" by (rule iter_normalized)
next
  show "map (\<lambda>r. ((port r, protocol r), get_external_port r)) (iter rules) = rules"
    by (induction rules) (auto simp: iter_def get_external_port_def)
next
  assume "parse_rule_str l = Inr a"
  then show "normalized a" by (rule parse_rule_str_normalized)
next
  assume "parse_rule_str l = Inr a"
  then show "py_int (drop_leading_empty (re_split [] l) ! 2) = Inr (get_external_port a)"
    by (auto simp: parse_rule_str_def Let_def get_external_port_def split: if_splits sum.splits)
next
  assume "get_existing_rules t w = (Inr existing, w')"
  then show "\<forall>a\<in>set existing. normalized a" by (rule get_existing_rules_normalized)
next
  assume g: "get_existing_rules t w = (Inr existing, w')"
  show "\<forall>r\<in>set (iter rules).
         r \<in> set existing \<longleftrightarrow>
         (\<exists>a\<in>set existing. port a = port r \<and> protocol a = protocol r \<and>
             get_external_port a = get_external_port r)"
  proof
    fix r assume r: "r \<in> set (iter rules)"
    then have nr: "normalized r" using iter_normalized by blast
    show "r \<in> set existing \<longleftrightarrow>
         (\<exists>a\<in>set existing. port a = port r \<and> protocol a = protocol r \<and>
             get_external_port a = get_external_port r)"
    proof
      assume "r \<in> set existing"
      then show "\<exists>a\<in>set existing. port a = port r \<and> protocol a = protocol r \<and>
             get_external_port a = get_external_port r"
        by blast
    next
      assume "\<exists>a\<in>set existing. port a = port r \<and> protocol a = protocol r \<and>
             get_external_port a = get_external_port r"
      then obtain a where a: "a \<in> set existing" "port a = port r" "protocol a = protocol r"
        "get_external_port a = get_external_port r" by blast
      from a(1) have "normalized a" using get_existing_rules_normalized [OF g] by blast
      with nr have "a = r" using a(2-4) by (rule normalized_eqI)
      with a(1) show "r \<in> set existing" by simp
    qed
  qed
qed

theorem rules_are_normalized_witness:
  "normalized \<lparr>port = 80, protocol = ''tcp'', external_port = Some 8080\<rparr> \<and>
   \<lparr>port = 80, protocol = ''tcp'', external_port = Some 8080\<rparr>
     \<in> set (iter [((80, ''tcp''), 8080)]) \<and>
   py_int (drop_leading_empty (re_split [] ''1 TCP 8080->192.168.1.5:80'') ! 2) = Inr 8080 \<and>
   fst (get_existing_rules (\<lambda>h c. Returns (Utf8 ''1 TCP 8080->192.168.1.5:80''))
         \<lparr>invocations = [], printed = []\<rparr>)
     = Inr [\<lparr>port = 80, protocol = ''tcp'', external_port = Some 8080\<rparr>]"
proof -
  let ?a = "\<lparr>port = 80, protocol = ''tcp'', external_port = Some 8080\<rparr>"
  have p: "parse_rule_str ''1 TCP 8080->192.168.1.5:80'' = Inr ?a"
    by (simp add: eval_simps)
  have g: "get_existing_rules (\<lambda>h c. Returns (Utf8 ''1 TCP 8080->192.168.1.5:80''))
         \<lparr>invocations = [], printed = []\<rparr>
     = (Inr [?a], \<lparr>invocations = [[''upnpc'', ''-l'']], printed = []\<rparr>)"
    by (simp add: eval_simps)
  have i: "iter [((80, ''tcp''), 8080)] = [?a]"
    by (simp add: iter_def)
  show ?thesis
    using rules_are_normalized [of "[((80, ''tcp''), 8080)]" "''1 TCP 8080->192.168.1.5:80''" ?a
        "\<lambda>h c. Returns (Utf8 ''1 TCP 8080->192.168.1.5:80'')"
        "\<lparr>invocations = [], printed = []\<rparr>" "[?a]"
        "\<lparr>invocations = [[''upnpc'', ''-l'']], printed = []\<rparr>"] p g i
    by (simp add: get_external_port_def)
qed

section \<open>Which lines of the listing are read\<close>

lemma parse_rule_strs_each:
  "parse_rule_strs ls = Inr rs \<Longrightarrow> map parse_rule_str ls = map Inr rs"
  by (induction ls arbitrary: rs) (auto split: sum.splits)

text \<open>
  C6, amended. \<^verbatim>\<open>get_existing_rules\<close> reads the lines of the listing in which a digit
  is directly followed by \<^verbatim>\<open>->\<close>, and no other: a line without that is ignored. The
  result is the result for the listing without the line, so the line adds no rule and
  raises nothing; and the rules returned are the rules parsed from the lines kept, one for
  each, in their order.
\<close>

theorem lines_without_digit_arrow_are_ignored:
  assumes "t (invocations w) list_command = Returns (Utf8 listing)"
    and "split_lines listing = before @ l # after"
    and "\<not> re_match_digit_arrow l"
  shows "fst (get_existing_rules t w)
       = parse_rule_strs (keep_lines (before @ after) re_match_digit_arrow) \<and>
     (\<forall>rs. fst (get_existing_rules t w) = Inr rs \<longrightarrow>
        map Inr rs = map parse_rule_str (filter re_match_digit_arrow (before @ after)))"
proof -
  have "keep_lines (split_lines listing) re_match_digit_arrow
      = keep_lines (before @ after) re_match_digit_arrow"
    using assms(2,3) by (simp add: keep_lines_def)
  then have g: "fst (get_existing_rules t w)
       = parse_rule_strs (keep_lines (before @ after) re_match_digit_arrow)"
    using get_existing_rules_returned [of t w listing, OF assms(1)] by simp
  then show ?thesis
    by (auto simp: keep_lines_def dest: parse_rule_strs_each)
qed

theorem lines_without_digit_arrow_are_ignored_witness:
  "fst (get_existing_rules
      (\<lambda>h c. Returns (Utf8 (''ExternalIPAddress = 1.2.3.4'' @ [CHR 0x0A]
                              @ '' 0 TCP 8080->192.168.1.5:80'')))
      \<lparr>invocations = [], printed = []\<rparr>)
     = Inr [\<lparr>port = 80, protocol = ''tcp'', external_port = Some 8080\<rparr>]"
proof -
  let ?t = "\<lambda>(h::command list) (c::command). Returns (Utf8 (''ExternalIPAddress = 1.2.3.4'' @ [CHR 0x0A]
                              @ '' 0 TCP 8080->192.168.1.5:80''))"
  let ?w = "\<lparr>invocations = [], printed = []\<rparr>"
  have a: "?t (invocations ?w) list_command = Returns (Utf8 (''ExternalIPAddress = 1.2.3.4'' @ [CHR 0x0A]
                              @ '' 0 TCP 8080->192.168.1.5:80''))"
    by simp
  have b: "split_lines (''ExternalIPAddress = 1.2.3.4'' @ [CHR 0x0A]
                              @ '' 0 TCP 8080->192.168.1.5:80'')
     = [] @ ''ExternalIPAddress = 1.2.3.4'' # ['' 0 TCP 8080->192.168.1.5:80'']"
    by (simp add: split_lines_def)
  have c: "\<not> re_match_digit_arrow ''ExternalIPAddress = 1.2.3.4''"
    by (simp add: re_match_digit_arrow_def is_digit_def)
  have d: "parse_rule_strs (keep_lines ([] @ ['' 0 TCP 8080->192.168.1.5:80'']) re_match_digit_arrow)
     = Inr [\<lparr>port = 80, protocol = ''tcp'', external_port = Some 8080\<rparr>]"
    by (simp add: eval_simps)
  show ?thesis
    using lines_without_digit_arrow_are_ignored [OF a b c] d by simp
qed

text \<open>
  C6 as stated does not hold: the lines kept are not the lines of the specification's
  shape. The line \<^verbatim>\<open>x1->\<close> has not that shape, is kept, and raises \<open>IndexError\<close>; the
  line \<^verbatim>\<open>a b 5->c:6\<close> has not that shape, is kept, and gives a rule.
\<close>

theorem kept_lines_outside_the_shape:
  "\<not> spec_line_shape ''x1->'' \<and>
   fst (get_existing_rules (\<lambda>h c. Returns (Utf8 ''x1->'')) \<lparr>invocations = [], printed = []\<rparr>)
     = Inl IndexError \<and>
   \<not> spec_line_shape ''a b 5->c:6'' \<and>
   fst (get_existing_rules (\<lambda>h c. Returns (Utf8 ''a b 5->c:6'')) \<lparr>invocations = [], printed = []\<rparr>)
     = Inr [\<lparr>port = 6, protocol = ''b'', external_port = Some 5\<rparr>]"
  by (simp add: eval_simps spec_line_shape_def)

section \<open>The run loop: leaving it\<close>

lemma step_exited: "phase s = Exited x \<Longrightarrow> step t config_files s e = s"
  by (simp add: step_def)

lemma steps_exited: "phase s = Exited x \<Longrightarrow> foldl (step t config_files) s events = s"
  by (induction events) (simp_all add: step_exited)

lemma raised_RuntimeError [simp]: "raised (RuntimeError m) = Exited (Some (RuntimeError m))"
  by (simp add: raised_def)

lemma raised_KeyError [simp]: "raised (KeyError k) = Exited (Some (KeyError k))"
  by (simp add: raised_def)

lemma call_not_found:
  assumes "t (invocations w) c = Raises FileNotFoundError"
  shows "call t c w =
     (Inl (RuntimeError ''Could not find upnpc executable, is miniupnpc installed?''),
      w\<lparr>invocations := invocations w @ [c]\<rparr>)"
  using assms by (simp add: call_def Let_def)

text \<open>
  C8. When the executable is not found, \<^verbatim>\<open>call\<close> raises the one \<open>RuntimeError\<close> with
  the message about \<^verbatim>\<open>upnpc\<close>, whatever the command; it is neither of the exceptions of
  parsing. When that happens at the listing of a pass, \<^verbatim>\<open>get_existing_rules\<close> and
  \<^verbatim>\<open>open_ports\<close> raise it after that one invocation, so no rule is applied, and the
  loop of \<^verbatim>\<open>run\<close> does not catch it: the run has ended with this exception, and no
  later event changes that.
\<close>

theorem tool_not_found_is_fatal:
  "(t (invocations w) c = Raises FileNotFoundError \<longrightarrow>
      fst (call t c w)
        = Inl (RuntimeError ''Could not find upnpc executable, is miniupnpc installed?'')) \<and>
   (t (invocations w) list_command = Raises FileNotFoundError \<longrightarrow>
      get_existing_rules t w
        = (Inl (RuntimeError ''Could not find upnpc executable, is miniupnpc installed?''),
           w\<lparr>invocations := invocations w @ [list_command]\<rparr>) \<and>
      open_ports t rules w
        = (Inl (RuntimeError ''Could not find upnpc executable, is miniupnpc installed?''),
           w\<lparr>invocations := invocations w @ [list_command]\<rparr>) \<and>
      foldl (step t config_files) \<lparr>config = rules, phase = Ready, effects = w\<rparr> (Step # events)
        = \<lparr>config = rules,
           phase = Exited (Some (RuntimeError
                     ''Could not find upnpc executable, is miniupnpc installed?'')),
           effects = w\<lparr>invocations := invocations w @ [list_command]\<rparr>\<rparr>) \<and>
   RuntimeError ''Could not find upnpc executable, is miniupnpc installed?'' \<noteq> ValueError \<and>
   RuntimeError ''Could not find upnpc executable, is miniupnpc installed?'' \<noteq> IndexError"
proof (intro conjI impI)
  assume "t (invocations w) c = Raises FileNotFoundError"
  then show "fst (call t c w)
        = Inl (RuntimeError ''Could not find upnpc executable, is miniupnpc installed?'')"
    by (simp add: call_not_found)
next
  assume a: "t (invocations w) list_command = Raises FileNotFoundError"
  then show g: "get_existing_rules t w
        = (Inl (RuntimeError ''Could not find upnpc executable, is miniupnpc installed?''),
           w\<lparr>invocations := invocations w @ [list_command]\<rparr>)"
    by (simp add: get_existing_rules_def call_not_found)
  then show "open_ports t rules w
        = (Inl (RuntimeError ''Could not find upnpc executable, is miniupnpc installed?''),
           w\<lparr>invocations := invocations w @ [list_command]\<rparr>)"
    by (simp add: open_ports_def)
  from g have "step t config_files \<lparr>config = rules, phase = Ready, effects = w\<rparr> Step
     = \<lparr>config = rules,
           phase = Exited (Some (RuntimeError
                     ''Could not find upnpc executable, is miniupnpc installed?'')),
           effects = w\<lparr>invocations := invocations w @ [list_command]\<rparr>\<rparr>"
    by (simp add: step_def program_step_def)
  then show "foldl (step t config_files) \<lparr>config = rules, phase = Ready, effects = w\<rparr> (Step # events)
        = \<lparr>config = rules,
           phase = Exited (Some (RuntimeError
                     ''Could not find upnpc executable, is miniupnpc installed?'')),
           effects = w\<lparr>invocations := invocations w @ [list_command]\<rparr>\<rparr>"
    by (simp add: steps_exited)
qed simp_all

theorem tool_not_found_is_fatal_witness:
  "open_ports (\<lambda>h c. Raises FileNotFoundError) [((80, ''tcp''), 80)]
       \<lparr>invocations = [], printed = []\<rparr>
     = (Inl (RuntimeError ''Could not find upnpc executable, is miniupnpc installed?''),
        \<lparr>invocations = [[''upnpc'', ''-l'']], printed = []\<rparr>) \<and>
   foldl (step (\<lambda>h c. Raises FileNotFoundError) [''upnpport.yaml''])
       \<lparr>config = [((80, ''tcp''), 80)], phase = Ready,
        effects = \<lparr>invocations = [], printed = []\<rparr>\<rparr> [Step, Step, Step]
     = \<lparr>config = [((80, ''tcp''), 80)],
        phase = Exited (Some (RuntimeError
                  ''Could not find upnpc executable, is miniupnpc installed?'')),
        effects = \<lparr>invocations = [[''upnpc'', ''-l'']], printed = []\<rparr>\<rparr>"
  using tool_not_found_is_fatal [of "\<lambda>h c. Raises FileNotFoundError" "\<lparr>invocations = [], printed = []\<rparr>"
      list_command "[((80, ''tcp''), 80)]" "[''upnpport.yaml'']" "[Step, Step]"]
  by (simp add: list_command_def)

section \<open>The run loop: reloading the configuration\<close>

lemma running_iff: "running s \<longleftrightarrow> (\<forall>x. phase s \<noteq> Exited x)"
  by (cases "phase s") (simp_all add: running_def)

lemma reloads_append: "reloads (a @ b) = reloads a @ reloads b"
  by (induction a rule: reloads.induct) simp_all

lemma parse_rules_fresh: "parse_rules f rules = parse_rules f []"
  by (simp add: parse_rules_def)

lemma add_rule_bad:
  "bad_item i \<Longrightarrow>
     add_rule i rules = Inl (KeyError ''port'') \<or> add_rule i rules = Inl (KeyError ''protocol'') \<or>
     add_rule i rules = Inl TypeError"
  by (auto simp: bad_item_def add_rule_def split: item.splits option.splits)

lemma add_rules_bad:
  "list_ex bad_item recs \<Longrightarrow>
     \<exists>e rules'. (e = KeyError ''port'' \<or> e = KeyError ''protocol'' \<or> e = TypeError) \<and>
        add_rules recs rules = (Inl e, rules')"
proof (induction recs arbitrary: rules)
  case Nil
  then show ?case by simp
next
  case (Cons i recs)
  show ?case
  proof (cases "add_rule i rules")
    case (Inl e)
    moreover have "e = KeyError ''port'' \<or> e = KeyError ''protocol'' \<or> e = TypeError"
      using Inl by (auto simp: add_rule_def split: item.splits option.splits)
    ultimately show ?thesis by simp
  next
    case (Inr rules')
    then have "\<not> bad_item i" using add_rule_bad [of i rules] by auto
    with Cons.prems have "list_ex bad_item recs" by simp
    from Cons.IH [OF this, of rules'] Inr show ?thesis by simp
  qed
qed

lemma parse_rules_malformed:
  assumes "find_config fs config_files = Inr f"
    and "malformed fs config_files"
  shows "\<exists>e rules'.
     (e = KeyError ''port'' \<or> e = KeyError ''protocol'' \<or> e = TypeError \<or> e = YAMLError) \<and>
     parse_rules (open_load fs f) rules = (Inl e, rules')"
proof (cases "open_load fs f")
  case NoSuchFile
  with assms show ?thesis by (simp add: malformed_def)
next
  case NotYaml
  then show ?thesis by (simp add: parse_rules_def)
next
  case (Loaded doc)
  with assms obtain recs where recs: "doc = Some recs" "list_ex bad_item recs"
    by (auto simp: malformed_def split: option.splits)
  then have "recs \<noteq> []" by auto
  with recs Loaded add_rules_bad [OF recs(2), of "[]"] show ?thesis
    by (auto simp: parse_rules_def)
qed

lemma malformed_found: "malformed fs config_files \<Longrightarrow> \<exists>f. find_config fs config_files = Inr f"
  by (auto simp: malformed_def split: sum.splits)

lemma run_handler_malformed:
  assumes "malformed fs config_files"
  shows "\<exists>e.
     (e = KeyError ''port'' \<or> e = KeyError ''protocol'' \<or> e = TypeError \<or> e = YAMLError) \<and>
     (\<forall>rules. \<exists>rules'. run_handler config_files (Started fs) rules = (Inl e, rules'))"
proof -
  from assms obtain f where f: "find_config fs config_files = Inr f"
    using malformed_found by blast
  from parse_rules_malformed [OF f assms, of "[]"] obtain e rules' where
    e: "e = KeyError ''port'' \<or> e = KeyError ''protocol'' \<or> e = TypeError \<or> e = YAMLError"
    and p: "parse_rules (open_load fs f) [] = (Inl e, rules')"
    by (elim exE conjE)
  have "\<exists>rules'. run_handler config_files (Started fs) rules = (Inl e, rules')" for rules
    using f p parse_rules_fresh [of "open_load fs f" rules] by (simp add: run_handler_def)
  then have "\<forall>rules. \<exists>rules'. run_handler config_files (Started fs) rules = (Inl e, rules')" ..
  with e show ?thesis by (intro exI [of _ e] conjI)
qed

lemma sigusr1_handler_run_handler:
  "fst (sigusr1_handler fs config_files rules w) = fst (run_handler config_files (Started fs) rules)"
  by (auto simp: sigusr1_handler_def run_handler_def split: sum.splits prod.splits)

lemma run_start_run_handler:
  "run_handler config_files (Started fs) [] = (Inl e, rules') \<Longrightarrow>
     phase (run_start fs config_files) = Exited (Some e)"
  by (auto simp: run_start_def run_handler_def Let_def split: sum.splits prod.splits)

text \<open>
  The steps of a handler that no signal interrupts carry out \<open>run_handler\<close>, which
  for a handler at its start is \<^verbatim>\<open>sigusr1_handler\<close>.
\<close>

lemma handler_state_step:
  "step t config_files \<lparr>config = c, phase = Reloading h p, effects = w\<rparr> Step =
     (case handler_step config_files h c of
        (Inl e, c') \<Rightarrow> \<lparr>config = c', phase = raised e, effects = w\<rparr>
      | (Inr (Some h'), c') \<Rightarrow> \<lparr>config = c', phase = Reloading h' p, effects = w\<rparr>
      | (Inr None, c') \<Rightarrow>
          \<lparr>config = c', phase = p, effects = print ''Reloaded configuration file.'' w\<rparr>)"
  by (simp add: step_def program_step_def split: prod.splits sum.splits option.splits)

lemma steps_Suc:
  "foldl (step t config_files) s (replicate (Suc n) Step)
     = foldl (step t config_files) (step t config_files s Step) (replicate n Step)"
  by simp

lemma steps_raised:
  "foldl (step t config_files) \<lparr>config = c, phase = raised e, effects = w\<rparr> events
     = \<lparr>config = c, phase = raised e, effects = w\<rparr>"
  by (rule steps_exited [of _ "if e = KeyboardInterrupt then None else Some e"])
    (simp add: raised_def)

lemma handler_steps_Parsed:
  "foldl (step t config_files) \<lparr>config = c, phase = Reloading Parsed p, effects = w\<rparr>
       (replicate (Suc 0) Step)
     = handler_result config_files Parsed c p w"
  by (simp add: handler_state_step handler_step_def handler_result_def run_handler_def)

lemma handler_steps_Adding:
  "\<exists>n. foldl (step t config_files) \<lparr>config = c, phase = Reloading (Adding recs) p, effects = w\<rparr>
          (replicate n Step)
     = handler_result config_files (Adding recs) c p w"
proof (induction recs arbitrary: c)
  case Nil
  have "foldl (step t config_files) \<lparr>config = c, phase = Reloading (Adding []) p, effects = w\<rparr>
          (replicate (Suc (Suc 0)) Step)
     = handler_result config_files (Adding []) c p w"
    by (simp add: handler_state_step handler_step_def handler_result_def run_handler_def)
  then show ?case ..
next
  case (Cons i recs)
  show ?case
  proof (cases "add_rule i c")
    case (Inl e)
    then have "foldl (step t config_files)
          \<lparr>config = c, phase = Reloading (Adding (i # recs)) p, effects = w\<rparr>
          (replicate (Suc 0) Step)
     = handler_result config_files (Adding (i # recs)) c p w"
      by (simp add: handler_state_step handler_step_def handler_result_def run_handler_def)
    then show ?thesis ..
  next
    case (Inr c')
    from Cons.IH [of c'] obtain n where
      n: "foldl (step t config_files) \<lparr>config = c', phase = Reloading (Adding recs) p, effects = w\<rparr>
          (replicate n Step)
     = handler_result config_files (Adding recs) c' p w" ..
    from Inr have "foldl (step t config_files)
          \<lparr>config = c, phase = Reloading (Adding (i # recs)) p, effects = w\<rparr>
          (replicate (Suc n) Step)
     = handler_result config_files (Adding (i # recs)) c p w"
      unfolding steps_Suc
      by (simp add: handler_state_step handler_step_def n)
        (simp add: handler_result_def run_handler_def)
    then show ?thesis ..
  qed
qed

lemma handler_steps_Cleared:
  "\<exists>n. foldl (step t config_files) \<lparr>config = c, phase = Reloading (Cleared fs f) p, effects = w\<rparr>
          (replicate n Step)
     = handler_result config_files (Cleared fs f) c p w"
proof -
  have via_Parsed: ?thesis
    if h: "handler_step config_files (Cleared fs f) c = (Inr (Some Parsed), c)"
      and r: "run_handler config_files (Cleared fs f) c = (Inr (), c)"
  proof -
    have "foldl (step t config_files)
          \<lparr>config = c, phase = Reloading (Cleared fs f) p, effects = w\<rparr>
          (replicate (Suc (Suc 0)) Step)
       = handler_result config_files Parsed c p w"
      unfolding steps_Suc handler_state_step h
      by (simp add: handler_steps_Parsed [simplified])
    also have "\<dots> = handler_result config_files (Cleared fs f) c p w"
      by (simp add: handler_result_def r) (simp add: run_handler_def)
    finally show ?thesis ..
  qed
  show ?thesis
  proof (cases "open_load fs f")
    case NoSuchFile
    then show ?thesis
      by (intro via_Parsed) (simp_all add: handler_step_def run_handler_def)
  next
    case NotYaml
    then have "foldl (step t config_files)
          \<lparr>config = c, phase = Reloading (Cleared fs f) p, effects = w\<rparr>
          (replicate (Suc 0) Step)
     = handler_result config_files (Cleared fs f) c p w"
      by (simp add: handler_state_step handler_step_def handler_result_def run_handler_def)
    then show ?thesis ..
  next
    case (Loaded doc)
    show ?thesis
    proof (cases doc)
      case None
      with Loaded show ?thesis
        by (intro via_Parsed) (simp_all add: handler_step_def run_handler_def)
    next
      case (Some recs)
      show ?thesis
      proof (cases "recs = []")
        case True
        with Loaded Some show ?thesis
          by (intro via_Parsed) (simp_all add: handler_step_def run_handler_def)
      next
        case False
        from handler_steps_Adding [of t config_files c recs p w] obtain n where
          n: "foldl (step t config_files)
                \<lparr>config = c, phase = Reloading (Adding recs) p, effects = w\<rparr> (replicate n Step)
            = handler_result config_files (Adding recs) c p w" ..
        have h: "handler_step config_files (Cleared fs f) c = (Inr (Some (Adding recs)), c)"
          using Loaded Some False by (simp add: handler_step_def)
        have "foldl (step t config_files)
              \<lparr>config = c, phase = Reloading (Cleared fs f) p, effects = w\<rparr>
              (replicate (Suc n) Step)
            = handler_result config_files (Adding recs) c p w"
          unfolding steps_Suc handler_state_step h by (simp add: n)
        also have "\<dots> = handler_result config_files (Cleared fs f) c p w"
          using Loaded Some by (simp add: handler_result_def run_handler_def)
        finally show ?thesis ..
      qed
    qed
  qed
qed

lemma run_handler_Found:
  "run_handler config_files (Found fs f) c = run_handler config_files (Cleared fs f) []"
proof (cases "open_load fs f")
  case (Loaded doc)
  then show ?thesis
    by (cases doc) (simp_all add: run_handler_def parse_rules_def)
qed (simp_all add: run_handler_def parse_rules_def)

lemma handler_steps_Found:
  "\<exists>n. foldl (step t config_files) \<lparr>config = c, phase = Reloading (Found fs f) p, effects = w\<rparr>
          (replicate n Step)
     = handler_result config_files (Found fs f) c p w"
proof -
  from handler_steps_Cleared [of t config_files "[]" fs f p w] obtain n where
    n: "foldl (step t config_files) \<lparr>config = [], phase = Reloading (Cleared fs f) p, effects = w\<rparr>
          (replicate n Step)
     = handler_result config_files (Cleared fs f) [] p w" ..
  have h: "handler_step config_files (Found fs f) c = (Inr (Some (Cleared fs f)), [])"
    by (simp add: handler_step_def)
  have "foldl (step t config_files)
          \<lparr>config = c, phase = Reloading (Found fs f) p, effects = w\<rparr>
          (replicate (Suc n) Step)
     = handler_result config_files (Cleared fs f) [] p w"
    unfolding steps_Suc handler_state_step h by (simp add: n)
  also have "\<dots> = handler_result config_files (Found fs f) c p w"
    by (simp add: handler_result_def run_handler_Found)
  finally show ?thesis ..
qed

lemma handler_steps_Started:
  "\<exists>n. foldl (step t config_files) \<lparr>config = c, phase = Reloading (Started fs) p, effects = w\<rparr>
          (replicate n Step)
     = handler_result config_files (Started fs) c p w"
proof (cases "find_config fs config_files")
  case (Inl e)
  then have "foldl (step t config_files)
          \<lparr>config = c, phase = Reloading (Started fs) p, effects = w\<rparr>
          (replicate (Suc 0) Step)
     = handler_result config_files (Started fs) c p w"
    by (simp add: handler_state_step handler_step_def handler_result_def run_handler_def)
  then show ?thesis ..
next
  case (Inr f)
  from handler_steps_Found [of t config_files c fs f p w] obtain n where
    n: "foldl (step t config_files) \<lparr>config = c, phase = Reloading (Found fs f) p, effects = w\<rparr>
          (replicate n Step)
     = handler_result config_files (Found fs f) c p w" ..
  have h: "handler_step config_files (Started fs) c = (Inr (Some (Found fs f)), c)"
    using Inr by (simp add: handler_step_def)
  have "foldl (step t config_files)
          \<lparr>config = c, phase = Reloading (Started fs) p, effects = w\<rparr>
          (replicate (Suc n) Step)
     = handler_result config_files (Found fs f) c p w"
    unfolding steps_Suc handler_state_step h by (simp add: n)
  also have "\<dots> = handler_result config_files (Started fs) c p w"
    using Inr by (simp add: handler_result_def run_handler_def)
  finally show ?thesis ..
qed

lemma handler_step_continue:
  assumes "handler_step config_files h c = (Inr (Some h'), c')"
  shows "run_handler config_files h' c' = run_handler config_files h c"
proof (cases h)
  case (Started fs)
  with assms show ?thesis
    by (cases "find_config fs config_files") (auto simp: handler_step_def run_handler_def)
next
  case (Found fs f)
  with assms have "h' = Cleared fs f" "c' = []"
    by (simp_all add: handler_step_def)
  with Found show ?thesis by (simp add: run_handler_Found)
next
  case (Cleared fs f)
  show ?thesis
  proof (cases "open_load fs f")
    case (Loaded doc)
    show ?thesis
    proof (cases doc)
      case None
      with assms Cleared Loaded show ?thesis
        by (auto simp: handler_step_def run_handler_def)
    next
      case (Some recs)
      with assms Cleared Loaded show ?thesis
        by (cases "recs = []") (auto simp: handler_step_def run_handler_def)
    qed
  qed (use assms Cleared in \<open>auto simp: handler_step_def run_handler_def\<close>)
next
  case (Adding recs)
  show ?thesis
  proof (cases recs)
    case Nil
    with assms Adding show ?thesis
      by (auto simp: handler_step_def run_handler_def)
  next
    case (Cons i others)
    with assms Adding show ?thesis
      by (cases "add_rule i c") (auto simp: handler_step_def run_handler_def)
  qed
next
  case Parsed
  with assms show ?thesis by (simp add: handler_step_def)
qed

lemma handler_step_return:
  assumes "handler_step config_files h c = (Inr None, c')"
  shows "run_handler config_files h c = (Inr (), c')"
proof (cases h)
  case (Started fs)
  with assms show ?thesis
    by (cases "find_config fs config_files") (auto simp: handler_step_def)
next
  case (Found fs f)
  with assms show ?thesis by (simp add: handler_step_def)
next
  case (Cleared fs f)
  show ?thesis
  proof (cases "open_load fs f")
    case (Loaded doc)
    show ?thesis
    proof (cases doc)
      case None
      with assms Cleared Loaded show ?thesis by (simp add: handler_step_def)
    next
      case (Some recs)
      with assms Cleared Loaded show ?thesis
        by (cases "recs = []") (simp_all add: handler_step_def)
    qed
  qed (use assms Cleared in \<open>simp_all add: handler_step_def\<close>)
next
  case (Adding recs)
  show ?thesis
  proof (cases recs)
    case Nil
    with assms Adding show ?thesis by (simp add: handler_step_def)
  next
    case (Cons i others)
    with assms Adding show ?thesis
      by (cases "add_rule i c") (simp_all add: handler_step_def)
  qed
next
  case Parsed
  with assms show ?thesis by (simp add: handler_step_def run_handler_def)
qed

lemma handler_ok_Started: "handler_ok config_files (loads @ [fs]) (Started fs) c"
proof (cases "find_config fs config_files")
  case (Inl e)
  then show ?thesis by (simp add: handler_ok_def run_handler_def load_def)
next
  case (Inr f)
  obtain res c' where p: "parse_rules (open_load fs f) [] = (res, c')"
    by (cases "parse_rules (open_load fs f) []")
  with Inr parse_rules_fresh [of "open_load fs f" c] show ?thesis
    by (cases res) (simp_all add: handler_ok_def run_handler_def load_def)
qed

lemma step_running:
  "running s \<Longrightarrow> step t config_files s e =
     (case e of
        Step \<Rightarrow> program_step t config_files s
      | Sigint \<Rightarrow> s\<lparr>phase := Exited None\<rparr>
      | Sigusr1 fs \<Rightarrow> s\<lparr>phase := Reloading (Started fs) (phase s)\<rparr>)"
  by (cases "phase s") (simp_all add: step_def running_def)

lemma program_step_idle:
  assumes "\<not> handling s"
  shows "config (program_step t config_files s) = config s \<and>
         \<not> handling (program_step t config_files s)"
proof (cases "phase s")
  case Ready
  then show ?thesis
    by (cases "get_existing_rules t (effects s)"; cases "fst (get_existing_rules t (effects s))")
      (auto simp: program_step_def handling_def raised_def)
next
  case (Enforcing ex rs)
  show ?thesis
  proof (cases rs)
    case Nil
    with Enforcing show ?thesis by (simp add: program_step_def handling_def)
  next
    case (Cons r rest)
    with Enforcing show ?thesis
      by (cases "open_port t ex r (effects s)"; cases "fst (open_port t ex r (effects s))")
        (auto simp: program_step_def handling_def raised_def)
  qed
next
  case (Reloading h p)
  with assms show ?thesis by (simp add: handling_def)
qed (simp_all add: program_step_def handling_def)

lemma program_step_Enforcing:
  assumes "\<not> handling s" and "phase (program_step t config_files s) = Enforcing ex rs"
  shows "(phase s = Listed ex \<and> rs = iter (config s)) \<or> (\<exists>r. phase s = Enforcing ex (r # rs))"
proof (cases "phase s")
  case Ready
  with assms(2) show ?thesis
    by (cases "get_existing_rules t (effects s)"; cases "fst (get_existing_rules t (effects s))")
      (auto simp: program_step_def raised_def)
next
  case (Listed ex')
  with assms(2) show ?thesis by (simp add: program_step_def)
next
  case (Enforcing ex' rs')
  show ?thesis
  proof (cases rs')
    case Nil
    with Enforcing assms(2) show ?thesis by (simp add: program_step_def)
  next
    case (Cons r rest)
    with Enforcing assms(2) show ?thesis
      by (cases "open_port t ex' r (effects s)"; cases "fst (open_port t ex' r (effects s))")
        (auto simp: program_step_def raised_def)
  qed
next
  case Sleeping
  with assms(2) show ?thesis by (simp add: program_step_def)
next
  case (Exited x)
  with assms(2) show ?thesis by (simp add: program_step_def)
next
  case (Reloading h p)
  with assms(1) show ?thesis by (simp add: handling_def)
qed

text \<open>The invariant, for one event and for a list of events.\<close>

lemma snapshot_ok_mono:
  "snapshot_ok config_files loads p \<Longrightarrow> set loads \<subseteq> set loads' \<Longrightarrow>
     snapshot_ok config_files loads' p"
  unfolding snapshot_ok_def by blast

lemma snapshot_ok_Reloading [simp]:
  "snapshot_ok config_files loads (Reloading h p) = snapshot_ok config_files loads p"
  by (simp add: snapshot_ok_def)

lemma complete_inv_idle:
  assumes "\<not> handling s"
  shows "complete_inv config_files loads s \<longleftrightarrow>
     (running s \<longrightarrow> snapshot_ok config_files loads (phase s) \<and>
        load (last loads) config_files = Some (config s))"
  using assms by (cases "phase s") (simp_all add: complete_inv_def handling_def)

lemma complete_inv_handling:
  assumes "phase s = Reloading h p"
  shows "complete_inv config_files loads s \<longleftrightarrow>
     snapshot_ok config_files loads p \<and> \<not> handling (s\<lparr>phase := p\<rparr>) \<and>
     handler_ok config_files loads h (config s)"
  using assms by (simp add: complete_inv_def running_def)

lemma complete_inv_exited: "\<not> running s \<Longrightarrow> complete_inv config_files loads s"
  by (simp add: complete_inv_def)

lemma complete_inv_start: "complete_inv config_files [fs] (run_start fs config_files)"
proof (cases "find_config fs config_files")
  case (Inl e)
  then show ?thesis
    by (simp add: run_start_def complete_inv_def running_def)
next
  case (Inr f)
  obtain res c where p: "parse_rules (open_load fs f) [] = (res, c)"
    by (cases "parse_rules (open_load fs f) []")
  with Inr show ?thesis
    by (cases res)
      (simp_all add: run_start_def complete_inv_def running_def load_def snapshot_ok_def)
qed

lemma complete_inv_step:
  assumes inv: "complete_inv config_files loads s"
    and ne: "loads \<noteq> []"
    and un: "case e of Sigusr1 fs \<Rightarrow> \<not> handling s | _ \<Rightarrow> True"
  shows "complete_inv config_files (loads @ reloads [e]) (step t config_files s e)"
proof (cases "running s")
  case False
  then obtain x where "phase s = Exited x" by (auto simp: running_iff)
  then have "step t config_files s e = s" by (rule step_exited)
  with False show ?thesis by (simp add: complete_inv_exited)
next
  case True
  show ?thesis
  proof (cases e)
    case Sigint
    with True have "step t config_files s e = s\<lparr>phase := Exited None\<rparr>"
      by (simp add: step_running)
    then show ?thesis by (simp add: complete_inv_exited running_def)
  next
    case (Sigusr1 fs)
    with un have idle: "\<not> handling s" by simp
    from Sigusr1 True have s': "step t config_files s e = s\<lparr>phase := Reloading (Started fs) (phase s)\<rparr>"
      by (simp add: step_running)
    from inv idle True have "snapshot_ok config_files loads (phase s)"
      by (simp add: complete_inv_idle)
    then have "snapshot_ok config_files (loads @ [fs]) (phase s)"
      by (rule snapshot_ok_mono) auto
    moreover have "handler_ok config_files (loads @ [fs]) (Started fs) (config s)"
      by (rule handler_ok_Started)
    ultimately show ?thesis
      unfolding s' using idle Sigusr1
      by (simp add: complete_inv_handling handling_def)
  next
    case Step
    with True have s': "step t config_files s e = program_step t config_files s"
      by (simp add: step_running)
    have r: "loads @ reloads [e] = loads"
      using Step by simp
    have idle_phase: ?thesis if idle: "\<not> handling s"
    proof -
      from inv idle True have cur: "load (last loads) config_files = Some (config s)"
        and snap: "snapshot_ok config_files loads (phase s)"
        by (simp_all add: complete_inv_idle)
      have idle': "\<not> handling (program_step t config_files s)"
        and same: "config (program_step t config_files s) = config s"
        using program_step_idle [OF idle] by blast+
      have "snapshot_ok config_files loads (phase (program_step t config_files s))"
        unfolding snapshot_ok_def
      proof (intro allI impI)
        fix ex rs
        assume "interrupted_point (phase (program_step t config_files s)) = Enforcing ex rs"
        with idle' have "phase (program_step t config_files s) = Enforcing ex rs"
          by (cases "phase (program_step t config_files s)") (simp_all add: handling_def)
        from program_step_Enforcing [OF idle this]
        show "\<exists>fs\<in>set loads. \<exists>c pre. load fs config_files = Some c \<and> iter c = pre @ rs"
        proof
          assume "phase s = Listed ex \<and> rs = iter (config s)"
          with cur have "load (last loads) config_files = Some (config s) \<and>
              iter (config s) = [] @ rs" by simp
          moreover have "last loads \<in> set loads" using ne by simp
          ultimately show ?thesis by blast
        next
          assume "\<exists>r. phase s = Enforcing ex (r # rs)"
          then obtain r where "phase s = Enforcing ex (r # rs)" by blast
          with snap obtain fs c pre where "fs \<in> set loads" "load fs config_files = Some c"
            "iter c = pre @ r # rs"
            unfolding snapshot_ok_def by auto
          then have "load fs config_files = Some c \<and> iter c = (pre @ [r]) @ rs" by simp
          with \<open>fs \<in> set loads\<close> show ?thesis by blast
        qed
      qed
      with cur idle' same show ?thesis
        unfolding s' r by (simp add: complete_inv_idle)
    qed
    show ?thesis
    proof (cases "phase s")
      case (Reloading h p)
      with inv have snap: "snapshot_ok config_files loads p"
        and idle: "\<not> handling (s\<lparr>phase := p\<rparr>)"
        and ok: "handler_ok config_files loads h (config s)"
        by (simp_all add: complete_inv_handling)
      obtain res c' where hs: "handler_step config_files h (config s) = (res, c')"
        by (cases "handler_step config_files h (config s)")
      show ?thesis
      proof (cases res)
        case (Inl err)
        with hs Reloading have "program_step t config_files s = s\<lparr>config := c', phase := raised err\<rparr>"
          by (simp add: program_step_def)
        then show ?thesis
          unfolding s' r by (simp add: complete_inv_exited running_def raised_def)
      next
        case (Inr nxt)
        show ?thesis
        proof (cases nxt)
          case (Some h')
          with hs Inr Reloading have
            ps: "program_step t config_files s = s\<lparr>config := c', phase := Reloading h' p\<rparr>"
            by (simp add: program_step_def)
          from hs Inr Some have "run_handler config_files h' c' = run_handler config_files h (config s)"
            by (simp add: handler_step_continue)
          with ok have "handler_ok config_files loads h' c'"
            by (simp add: handler_ok_def)
          with snap idle show ?thesis
            unfolding s' r ps by (simp add: complete_inv_handling handling_def)
        next
          case None
          with hs Inr Reloading have
            ps: "program_step t config_files s
              = s\<lparr>config := c', phase := p,
                  effects := print ''Reloaded configuration file.'' (effects s)\<rparr>"
            by (simp add: program_step_def)
          from hs Inr None have "run_handler config_files h (config s) = (Inr (), c')"
            by (simp add: handler_step_return)
          with ok have "load (last loads) config_files = Some c'"
            by (simp add: handler_ok_def)
          moreover from idle have "\<not> handling (s\<lparr>config := c', phase := p,
                  effects := print ''Reloaded configuration file.'' (effects s)\<rparr>)"
            by (simp add: handling_def)
          ultimately show ?thesis
            unfolding s' r ps using snap by (simp add: complete_inv_idle)
        qed
      qed
    qed (rule idle_phase, simp add: handling_def)+
  qed
qed

lemma complete_inv_steps:
  "complete_inv config_files loads s \<Longrightarrow> loads \<noteq> [] \<Longrightarrow> unnested t config_files s events \<Longrightarrow>
     complete_inv config_files (loads @ reloads events) (foldl (step t config_files) s events)"
proof (induction events arbitrary: s loads)
  case Nil
  then show ?case by simp
next
  case (Cons e events)
  from Cons.prems(3) have un: "case e of Sigusr1 fs \<Rightarrow> \<not> handling s | _ \<Rightarrow> True"
    and rest: "unnested t config_files (step t config_files s e) events"
    by simp_all
  from complete_inv_step [OF Cons.prems(1,2) un, of t]
  have "complete_inv config_files (loads @ reloads [e]) (step t config_files s e)" .
  from Cons.IH [OF this _ rest] have
    "complete_inv config_files ((loads @ reloads [e]) @ reloads events)
       (foldl (step t config_files) (step t config_files s e) events)"
    using Cons.prems(2) by simp
  moreover have "(loads @ reloads [e]) @ reloads events = loads @ reloads (e # events)"
    using reloads_append [of "[e]" events] by simp
  ultimately show ?case by simp
qed

lemma interrupted_point_running:
  "interrupted_point (phase s) = Enforcing ex rs \<Longrightarrow> running s"
  by (cases "phase s") (simp_all add: running_def)

lemma raised_fatal:
  "e = KeyError ''port'' \<or> e = KeyError ''protocol'' \<or> e = TypeError \<or> e = YAMLError \<Longrightarrow>
     raised e = Exited (Some e)"
  by (auto simp: raised_def)

lemma unnested_run_complete:
  assumes u: "unnested t config_files (run_start fs config_files) events"
  shows "(running (run t fs config_files events) \<and> \<not> handling (run t fs config_files events) \<longrightarrow>
         load (last (fs # reloads events)) config_files
           = Some (config (run t fs config_files events))) \<and>
      (interrupted_point (phase (run t fs config_files events)) = Enforcing ex rs \<longrightarrow>
         (\<exists>fs''\<in>set (fs # reloads events). \<exists>c pre.
             load fs'' config_files = Some c \<and> iter c = pre @ rs))"
proof -
  have "complete_inv config_files ([fs] @ reloads events)
      (foldl (step t config_files) (run_start fs config_files) events)"
    by (rule complete_inv_steps [OF complete_inv_start _ u]) simp
  then have inv: "complete_inv config_files (fs # reloads events) (run t fs config_files events)"
    by (simp add: run_def)
  have one: "load (last (fs # reloads events)) config_files
           = Some (config (run t fs config_files events))"
    if "running (run t fs config_files events)" "\<not> handling (run t fs config_files events)"
    using inv that complete_inv_idle [of "run t fs config_files events" config_files "fs # reloads events"]
    by blast
  have two: "\<exists>fs''\<in>set (fs # reloads events). \<exists>c pre.
             load fs'' config_files = Some c \<and> iter c = pre @ rs"
    if i: "interrupted_point (phase (run t fs config_files events)) = Enforcing ex rs"
  proof -
    from i have "running (run t fs config_files events)"
      by (rule interrupted_point_running)
    with inv have "snapshot_ok config_files (fs # reloads events)
        (phase (run t fs config_files events))"
      unfolding complete_inv_def by blast
    with i show ?thesis
      unfolding snapshot_ok_def by blast
  qed
  from one two show ?thesis by blast
qed

lemma malformed_is_fatal:
  assumes m: "malformed fs' config_files"
  shows "\<exists>e. (e = KeyError ''port'' \<or> e = KeyError ''protocol'' \<or> e = TypeError \<or> e = YAMLError) \<and>
         fst (sigusr1_handler fs' config_files rules w) = Inl e \<and>
         phase (run_start fs' config_files) = Exited (Some e) \<and>
         (running s \<longrightarrow>
            (\<exists>n. phase (foldl (step t config_files) s (Sigusr1 fs' # replicate n Step))
                   = Exited (Some e)))"
proof -
  from run_handler_malformed [OF m] obtain e where
    e: "e = KeyError ''port'' \<or> e = KeyError ''protocol'' \<or> e = TypeError \<or> e = YAMLError"
    and h': "\<forall>c. \<exists>c'. run_handler config_files (Started fs') c = (Inl e, c')"
    by (elim exE conjE)
  from h' have h: "\<exists>c'. run_handler config_files (Started fs') c = (Inl e, c')" for c ..
  from e have re: "raised e = Exited (Some e)" by (rule raised_fatal)
  from h [of rules] obtain c1 where "run_handler config_files (Started fs') rules = (Inl e, c1)" ..
  then have a: "fst (sigusr1_handler fs' config_files rules w) = Inl e"
    by (simp add: sigusr1_handler_run_handler)
  from h [of "[]"] obtain c2 where "run_handler config_files (Started fs') [] = (Inl e, c2)" ..
  then have b: "phase (run_start fs' config_files) = Exited (Some e)"
    by (rule run_start_run_handler)
  have c: "running s \<longrightarrow>
      (\<exists>n. phase (foldl (step t config_files) s (Sigusr1 fs' # replicate n Step)) = Exited (Some e))"
  proof
    assume r: "running s"
    then have st: "step t config_files s (Sigusr1 fs')
        = \<lparr>config = config s, phase = Reloading (Started fs') (phase s), effects = effects s\<rparr>"
      by (simp add: step_running)
    from handler_steps_Started [of t config_files "config s" fs' "phase s" "effects s"]
    obtain n where n: "foldl (step t config_files)
          \<lparr>config = config s, phase = Reloading (Started fs') (phase s), effects = effects s\<rparr>
          (replicate n Step)
        = handler_result config_files (Started fs') (config s) (phase s) (effects s)" ..
    from h [of "config s"] obtain c' where
      rh: "run_handler config_files (Started fs') (config s) = (Inl e, c')" ..
    have "foldl (step t config_files) s (Sigusr1 fs' # replicate n Step)
        = handler_result config_files (Started fs') (config s) (phase s) (effects s)"
      unfolding foldl_Cons st n ..
    then have "phase (foldl (step t config_files) s (Sigusr1 fs' # replicate n Step)) = raised e"
      by (simp add: handler_result_def rh)
    with re show "\<exists>n. phase (foldl (step t config_files) s (Sigusr1 fs' # replicate n Step))
        = Exited (Some e)"
      by (intro exI [of _ n]) simp
  qed
  from e a b c show ?thesis
    by (intro exI [of _ e] conjI)
qed

text \<open>
  C9, amended. A configuration file that is not YAML, or that holds an entry that is no
  mapping or lacks its port or its protocol, makes the load raise (\<open>YAMLError\<close>,
  \<open>TypeError\<close>, \<open>KeyError\<close>): at the start \<^verbatim>\<open>run\<close> ends with the exception before
  any pass, and a reload signal delivered to a run that goes on ends it with the exception
  after some steps of the handler. When no reload signal is delivered while a handler is
  running, then after any events: outside a handler, a run that goes on holds the
  complete rule set of the last configuration loaded (the first one or that of the last
  reload), and a pass, in progress or interrupted by a handler, iterates over the rest of
  the complete rule set of one of the configurations loaded so far. A run that has ended
  stays ended, so the rules that a failed load left behind are never read by a pass.
\<close>

theorem reloads_without_nesting_are_fatal_or_complete:
  "(malformed fs' config_files \<longrightarrow>
      (\<exists>e. (e = KeyError ''port'' \<or> e = KeyError ''protocol'' \<or> e = TypeError \<or> e = YAMLError) \<and>
         fst (sigusr1_handler fs' config_files rules w) = Inl e \<and>
         phase (run_start fs' config_files) = Exited (Some e) \<and>
         (running s \<longrightarrow>
            (\<exists>n. phase (foldl (step t config_files) s (Sigusr1 fs' # replicate n Step))
                   = Exited (Some e))))) \<and>
   (unnested t config_files (run_start fs config_files) events \<longrightarrow>
      (running (run t fs config_files events) \<and> \<not> handling (run t fs config_files events) \<longrightarrow>
         load (last (fs # reloads events)) config_files
           = Some (config (run t fs config_files events))) \<and>
      (interrupted_point (phase (run t fs config_files events)) = Enforcing ex rs \<longrightarrow>
         (\<exists>fs''\<in>set (fs # reloads events). \<exists>c pre.
             load fs'' config_files = Some c \<and> iter c = pre @ rs))) \<and>
   (\<not> running s \<longrightarrow> foldl (step t config_files) s later = s)"
proof (intro conjI)
  show "malformed fs' config_files \<longrightarrow>
      (\<exists>e. (e = KeyError ''port'' \<or> e = KeyError ''protocol'' \<or> e = TypeError \<or> e = YAMLError) \<and>
         fst (sigusr1_handler fs' config_files rules w) = Inl e \<and>
         phase (run_start fs' config_files) = Exited (Some e) \<and>
         (running s \<longrightarrow>
            (\<exists>n. phase (foldl (step t config_files) s (Sigusr1 fs' # replicate n Step))
                   = Exited (Some e))))"
    by (rule impI) (rule malformed_is_fatal)
  show "unnested t config_files (run_start fs config_files) events \<longrightarrow>
      (running (run t fs config_files events) \<and> \<not> handling (run t fs config_files events) \<longrightarrow>
         load (last (fs # reloads events)) config_files
           = Some (config (run t fs config_files events))) \<and>
      (interrupted_point (phase (run t fs config_files events)) = Enforcing ex rs \<longrightarrow>
         (\<exists>fs''\<in>set (fs # reloads events). \<exists>c pre.
             load fs'' config_files = Some c \<and> iter c = pre @ rs))"
    by (rule impI) (rule unnested_run_complete)
  show "\<not> running s \<longrightarrow> foldl (step t config_files) s later = s"
  proof
    assume "\<not> running s"
    then obtain x where "phase s = Exited x" by (auto simp: running_iff)
    then show "foldl (step t config_files) s later = s" by (rule steps_exited)
  qed
qed

lemmas run_simps = run_def run_start_def step_def program_step_def handler_step_def
  find_config_def parse_rules_def add_rule_def add_def load_def

theorem reloads_without_nesting_are_fatal_or_complete_witness:
  "malformed
     \<lparr>is_file = (\<lambda>p. True),
      open_load = (\<lambda>p. Loaded (Some
        [Mapping \<lparr>raw_port = Some 81, raw_external_port = None, raw_protocol = Some ''tcp''\<rparr>,
         Mapping \<lparr>raw_port = None, raw_external_port = None, raw_protocol = Some ''tcp''\<rparr>]))\<rparr>
     [''upnpport.yaml''] \<and>
   (\<exists>e n. phase (foldl (step (\<lambda>h c. Returns (Utf8 [])) [''upnpport.yaml''])
        \<lparr>config = [((80, ''tcp''), 80)], phase = Sleeping,
         effects = \<lparr>invocations = [], printed = []\<rparr>\<rparr>
        (Sigusr1
          \<lparr>is_file = (\<lambda>p. True),
           open_load = (\<lambda>p. Loaded (Some
             [Mapping \<lparr>raw_port = Some 81, raw_external_port = None, raw_protocol = Some ''tcp''\<rparr>,
              Mapping \<lparr>raw_port = None, raw_external_port = None, raw_protocol = Some ''tcp''\<rparr>]))\<rparr>
         # replicate n Step))
      = Exited (Some e)) \<and>
   load \<lparr>is_file = (\<lambda>p. True),
         open_load = (\<lambda>p. Loaded (Some
           [Mapping \<lparr>raw_port = Some 53, raw_external_port = None, raw_protocol = Some ''udp''\<rparr>]))\<rparr>
        [''upnpport.yaml'']
     = Some (config (run (\<lambda>h c. Returns (Utf8 []))
         \<lparr>is_file = (\<lambda>p. True),
          open_load = (\<lambda>p. Loaded (Some
            [Mapping \<lparr>raw_port = Some 80, raw_external_port = None, raw_protocol = Some ''tcp''\<rparr>]))\<rparr>
         [''upnpport.yaml'']
         [Step,
          Sigusr1
            \<lparr>is_file = (\<lambda>p. True),
             open_load = (\<lambda>p. Loaded (Some
               [Mapping \<lparr>raw_port = Some 53, raw_external_port = None,
                         raw_protocol = Some ''udp''\<rparr>]))\<rparr>,
          Step, Step, Step, Step, Step, Step]))"
proof -
  let ?bad = "\<lparr>is_file = (\<lambda>p::string. True),
      open_load = (\<lambda>p::string. Loaded (Some
        [Mapping \<lparr>raw_port = Some 81, raw_external_port = None, raw_protocol = Some ''tcp''\<rparr>,
         Mapping \<lparr>raw_port = None, raw_external_port = None, raw_protocol = Some ''tcp''\<rparr>]))\<rparr>"
  let ?good = "\<lparr>is_file = (\<lambda>p::string. True),
         open_load = (\<lambda>p::string. Loaded (Some
           [Mapping \<lparr>raw_port = Some 80, raw_external_port = None, raw_protocol = Some ''tcp''\<rparr>]))\<rparr>"
  let ?next = "\<lparr>is_file = (\<lambda>p::string. True),
         open_load = (\<lambda>p::string. Loaded (Some
           [Mapping \<lparr>raw_port = Some 53, raw_external_port = None, raw_protocol = Some ''udp''\<rparr>]))\<rparr>"
  let ?t = "\<lambda>(h::command list) (c::command). Returns (Utf8 [])"
  let ?s = "\<lparr>config = [((80, ''tcp''), 80)], phase = Sleeping,
         effects = \<lparr>invocations = [], printed = []\<rparr>\<rparr>"
  let ?events = "[Step, Sigusr1 ?next, Step, Step, Step, Step, Step, Step]"
  have m: "malformed ?bad [''upnpport.yaml'']"
    by (simp add: malformed_def find_config_def bad_item_def)
  have r: "running ?s"
    by (simp add: running_def)
  have u: "unnested ?t [''upnpport.yaml''] (run_start ?good [''upnpport.yaml'']) ?events"
    by (simp add: run_simps eval_simps handling_def)
  have g: "run ?t ?good [''upnpport.yaml''] ?events
     = \<lparr>config = [((53, ''udp''), 53)], phase = Listed [],
        effects = \<lparr>invocations = [[''upnpc'', ''-l'']],
                   printed = [''Reloaded configuration file.'']\<rparr>\<rparr>"
    by (simp add: run_simps eval_simps)
  then have i: "running (run ?t ?good [''upnpport.yaml''] ?events) \<and>
      \<not> handling (run ?t ?good [''upnpport.yaml''] ?events)"
    by (simp add: running_def handling_def)
  show ?thesis
    using reloads_without_nesting_are_fatal_or_complete [of ?bad "[''upnpport.yaml'']" "[]" "\<lparr>invocations = [], printed = []\<rparr>"
        ?s ?t ?good ?events "[]" "[]" "[]"]
      m r u i
    by auto
qed

text \<open>
  C9 as stated does not hold. First, the values of a configuration are not checked: a
  file whose only rule has port 70000, external port -1 and protocol \<^verbatim>\<open>icmp\<close> loads
  without an exception and the pass applies it. Second, a handler adds its rules to the
  dictionary that \<^verbatim>\<open>self._rules\<close> names when it adds them: the file holds the ports
  80 and 81, a reload signal arrives and its handler has added port 80 when the file is
  replaced by one with port 53 and a second signal arrives; the second handler leaves
  port 53, the first goes on and adds port 81, and the next pass iterates over ports 53
  and 81, the complete rule set of neither file.
\<close>

theorem unchecked_values_and_nested_reloads:
  "phase (run_start
      \<lparr>is_file = (\<lambda>p. True),
       open_load = (\<lambda>p. Loaded (Some
         [Mapping \<lparr>raw_port = Some 70000, raw_external_port = Some (- 1),
                   raw_protocol = Some ''icmp''\<rparr>]))\<rparr>
      [''upnpport.yaml'']) = Ready \<and>
   run (\<lambda>h c. Returns (Utf8 []))
      \<lparr>is_file = (\<lambda>p. True),
       open_load = (\<lambda>p. Loaded (Some
         [Mapping \<lparr>raw_port = Some 70000, raw_external_port = Some (- 1),
                   raw_protocol = Some ''icmp''\<rparr>]))\<rparr>
      [''upnpport.yaml''] [Step, Step, Step]
     = \<lparr>config = [((70000, ''icmp''), - 1)], phase = Enforcing [] [],
        effects = \<lparr>invocations = [[''upnpc'', ''-l''], [''upnpc'', ''-r'', ''70000'', ''-1'', ''icmp'']],
                   printed = [''enforcing rule 70000->-1 icmp'']\<rparr>\<rparr> \<and>
   load \<lparr>is_file = (\<lambda>p. True),
         open_load = (\<lambda>p. Loaded (Some
           [Mapping \<lparr>raw_port = Some 80, raw_external_port = None, raw_protocol = Some ''tcp''\<rparr>,
            Mapping \<lparr>raw_port = Some 81, raw_external_port = None, raw_protocol = Some ''tcp''\<rparr>]))\<rparr>
        [''upnpport.yaml'']
     = Some [((80, ''tcp''), 80), ((81, ''tcp''), 81)] \<and>
   load \<lparr>is_file = (\<lambda>p. True),
         open_load = (\<lambda>p. Loaded (Some
           [Mapping \<lparr>raw_port = Some 53, raw_external_port = None, raw_protocol = Some ''udp''\<rparr>]))\<rparr>
        [''upnpport.yaml'']
     = Some [((53, ''udp''), 53)] \<and>
   run (\<lambda>h c. Returns (Utf8 []))
      \<lparr>is_file = (\<lambda>p. True),
       open_load = (\<lambda>p. Loaded (Some
         [Mapping \<lparr>raw_port = Some 80, raw_external_port = None, raw_protocol = Some ''tcp''\<rparr>,
          Mapping \<lparr>raw_port = Some 81, raw_external_port = None, raw_protocol = Some ''tcp''\<rparr>]))\<rparr>
      [''upnpport.yaml'']
      [Sigusr1
         \<lparr>is_file = (\<lambda>p. True),
          open_load = (\<lambda>p. Loaded (Some
            [Mapping \<lparr>raw_port = Some 80, raw_external_port = None, raw_protocol = Some ''tcp''\<rparr>,
             Mapping \<lparr>raw_port = Some 81, raw_external_port = None, raw_protocol = Some ''tcp''\<rparr>]))\<rparr>,
       Step, Step, Step, Step,
       Sigusr1
         \<lparr>is_file = (\<lambda>p. True),
          open_load = (\<lambda>p. Loaded (Some
            [Mapping \<lparr>raw_port = Some 53, raw_external_port = None, raw_protocol = Some ''udp''\<rparr>]))\<rparr>,
       Step, Step, Step, Step, Step, Step,
       Step, Step, Step,
       Step, Step]
     = \<lparr>config = [((53, ''udp''), 53), ((81, ''tcp''), 81)],
        phase = Enforcing []
          [\<lparr>port = 53, protocol = ''udp'', external_port = None\<rparr>,
           \<lparr>port = 81, protocol = ''tcp'', external_port = None\<rparr>],
        effects = \<lparr>invocations = [[''upnpc'', ''-l'']],
                   printed = [''Reloaded configuration file.'', ''Reloaded configuration file.'']\<rparr>\<rparr>"
  by (simp add: run_simps eval_simps)

section \<open>The run loop: a pass is \<^verbatim>\<open>open_ports\<close>\<close>

text \<open>
  Without signals, the steps of the machine from the top of the loop carry out
  \<^verbatim>\<open>open_ports\<close>: the same effects, and the exception it raises or the sleep after it.
\<close>

lemma enforce_steps:
  "\<exists>n. foldl (step t config_files) \<lparr>config = c, phase = Enforcing ex rs, effects = w\<rparr>
          (replicate n Step)
     = (case for_rules t ex rs w of
          (Inl e, w') \<Rightarrow> \<lparr>config = c, phase = raised e, effects = w'\<rparr>
        | (Inr u, w') \<Rightarrow> \<lparr>config = c, phase = Sleeping,
                          effects = print ''Sleeping for 5 minutes.'' w'\<rparr>)"
proof (induction rs arbitrary: w)
  case Nil
  show ?case
    by (rule exI [of _ "Suc 0"]) (simp add: step_def program_step_def)
next
  case (Cons r rs)
  obtain res w1 where o: "open_port t ex r w = (res, w1)"
    by (cases "open_port t ex r w")
  show ?case
  proof (cases res)
    case (Inl e)
    with o show ?thesis
      by (intro exI [of _ "Suc 0"]) (simp add: step_def program_step_def)
  next
    case (Inr u)
    from Cons.IH [of w1] obtain n where n:
      "foldl (step t config_files) \<lparr>config = c, phase = Enforcing ex rs, effects = w1\<rparr>
          (replicate n Step)
     = (case for_rules t ex rs w1 of
          (Inl e, w') \<Rightarrow> \<lparr>config = c, phase = raised e, effects = w'\<rparr>
        | (Inr u, w') \<Rightarrow> \<lparr>config = c, phase = Sleeping,
                          effects = print ''Sleeping for 5 minutes.'' w'\<rparr>)" ..
    from o Inr have "step t config_files \<lparr>config = c, phase = Enforcing ex (r # rs), effects = w\<rparr> Step
       = \<lparr>config = c, phase = Enforcing ex rs, effects = w1\<rparr>"
      by (simp add: step_def program_step_def)
    with n o Inr show ?thesis
      by (intro exI [of _ "Suc n"]) simp
  qed
qed

lemma pass_is_open_ports:
  "\<exists>n. foldl (step t config_files) \<lparr>config = c, phase = Ready, effects = w\<rparr> (replicate n Step)
     = (case open_ports t c w of
          (Inl e, w') \<Rightarrow> \<lparr>config = c, phase = raised e, effects = w'\<rparr>
        | (Inr u, w') \<Rightarrow> \<lparr>config = c, phase = Sleeping,
                          effects = print ''Sleeping for 5 minutes.'' w'\<rparr>)"
proof -
  obtain res w1 where g: "get_existing_rules t w = (res, w1)"
    by (cases "get_existing_rules t w")
  show ?thesis
  proof (cases res)
    case (Inl e)
    with g show ?thesis
      by (intro exI [of _ "Suc 0"]) (simp add: step_def program_step_def open_ports_def)
  next
    case (Inr ex)
    from enforce_steps [of t config_files c ex "iter c" w1] obtain n where n:
      "foldl (step t config_files) \<lparr>config = c, phase = Enforcing ex (iter c), effects = w1\<rparr>
          (replicate n Step)
     = (case for_rules t ex (iter c) w1 of
          (Inl e, w') \<Rightarrow> \<lparr>config = c, phase = raised e, effects = w'\<rparr>
        | (Inr u, w') \<Rightarrow> \<lparr>config = c, phase = Sleeping,
                          effects = print ''Sleeping for 5 minutes.'' w'\<rparr>)" ..
    from g Inr have a: "step t config_files \<lparr>config = c, phase = Ready, effects = w\<rparr> Step
       = \<lparr>config = c, phase = Listed ex, effects = w1\<rparr>"
      by (simp add: step_def program_step_def)
    have b: "step t config_files \<lparr>config = c, phase = Listed ex, effects = w1\<rparr> Step
       = \<lparr>config = c, phase = Enforcing ex (iter c), effects = w1\<rparr>"
      by (simp add: step_def program_step_def)
    from n a b g Inr show ?thesis
      by (intro exI [of _ "Suc (Suc n)"]) (simp add: open_ports_def)
  qed
qed

end
